theory Spec2Isabelle
  imports Complex_Main "HOL-Library.Multiset" "HOL-Library.Char_ord" "HOL-Library.List_Lexorder"
begin

section \<open>Python values used by the program\<close>

text \<open>
  The program is a single Python module, \<^verbatim>\<open>app.py\<close>.  Its rows are dictionaries
  from field names to strings, integers and floats; its only exceptions are the
  \<^verbatim>\<open>KeyError\<close> of a failed dictionary lookup and the \<^verbatim>\<open>TypeError\<close> of an
  unsupported comparison inside \<^verbatim>\<open>sorted\<close>.
\<close>

datatype error = KeyError | TypeError

subsection \<open>Binary64 floating point\<close>

text \<open>
  A finite Python float is modelled by the rational number it denotes.  Every float
  operation of the program is the exact operation followed by rounding to the nearest
  binary64 value, ties to even (\<open>fl\<close>).  The exponent range is not modelled: \<open>fl\<close>
  keeps 53 significant bits at every magnitude, so it agrees with the hardware wherever
  the result is neither subnormal nor an overflow.  In \<open>score_stack\<close> every nonzero
  intermediate result is a multiple of \<open>2 powi (-57)\<close>, so no subnormal can arise, and
  an overflow needs attribute values beyond \<open>10 ^ 300\<close>.
\<close>

definition round_half_even :: "rat \<Rightarrow> int" where
  "round_half_even x =
     (let f = \<lfloor>x\<rfloor>; d = x - of_int f
      in if d < 1 / 2 then f
         else if 1 / 2 < d then f + 1
         else if even f then f else f + 1)"

text \<open>\<open>ilog b x\<close> is the integer part of the base-\<open>b\<close> logarithm of a positive \<open>x\<close>.\<close>

function ilog :: "nat \<Rightarrow> rat \<Rightarrow> int" where
  "ilog b x =
     (if x \<le> 0 \<or> b < 2 then 0
      else if of_nat b \<le> x then ilog b (x / of_nat b) + 1
      else if x < 1 then ilog b (x * of_nat b) - 1
      else 0)"
  by pat_completeness auto

lemma ilog_down_step:
  fixes x :: rat
  assumes "2 \<le> b" and "of_nat b \<le> x"
  shows "1 \<le> x / of_nat b" and "\<lfloor>x / of_nat b\<rfloor> < \<lfloor>x\<rfloor>"
proof -
  have b2: "(2::rat) \<le> of_nat b" using assms(1) by (metis of_nat_le_iff of_nat_numeral)
  then have bpos: "(0::rat) < of_nat b" by linarith
  have x2: "2 \<le> x" using b2 assms(2) by linarith
  show "1 \<le> x / of_nat b" using assms(2) bpos by (simp add: le_divide_eq)
  have "x / of_nat b \<le> x / 2"
    using b2 x2 by (intro divide_left_mono) auto
  also have "\<dots> \<le> x - 1" using x2 by simp
  finally have "\<lfloor>x / of_nat b\<rfloor> \<le> \<lfloor>x - 1\<rfloor>" by (rule floor_mono)
  then show "\<lfloor>x / of_nat b\<rfloor> < \<lfloor>x\<rfloor>" by simp
qed

lemma ilog_up_step:
  fixes x :: rat
  assumes "2 \<le> b" and "0 < x" and "x * of_nat b < 1"
  shows "\<lceil>1 / (x * of_nat b)\<rceil> < \<lceil>1 / x\<rceil>"
proof -
  have b2: "(2::rat) \<le> of_nat b" using assms(1) by (metis of_nat_le_iff of_nat_numeral)
  have "x * 2 \<le> x * of_nat b" using b2 assms(2) by simp
  then have xh: "x * 2 < 1" using assms(3) by linarith
  then have y2: "2 < 1 / x" using assms(2) by (simp add: less_divide_eq)
  have "1 / (x * of_nat b) = (1 / x) / of_nat b" by simp
  also have "\<dots> \<le> (1 / x) / 2"
    using b2 assms(2) by (intro divide_left_mono) auto
  also have "\<dots> \<le> 1 / x - 1" using y2 by simp
  finally have "\<lceil>1 / (x * of_nat b)\<rceil> \<le> \<lceil>1 / x - 1\<rceil>" by (rule ceiling_mono)
  then show ?thesis by simp
qed

termination ilog
proof (relation "measures [\<lambda>(b, x). if x < 1 then nat \<lceil>1 / x\<rceil> else 0, \<lambda>(b, x). nat \<lfloor>x\<rfloor>]", goal_cases)
  case 1
  show ?case by simp
next
  case (2 b x)
  then have b: "2 \<le> b" and x: "of_nat b \<le> x" by auto
  have "(2::rat) \<le> of_nat b" using b by (metis of_nat_le_iff of_nat_numeral)
  then have "\<not> x < 1" using x by linarith
  moreover have "\<not> x / of_nat b < 1" using ilog_down_step(1)[OF b x] by linarith
  moreover have "nat \<lfloor>x / of_nat b\<rfloor> < nat \<lfloor>x\<rfloor>"
    using ilog_down_step(2)[OF b x] ilog_down_step(1)[OF b x] by linarith
  ultimately show ?case by simp
next
  case (3 b x)
  then have b: "2 \<le> b" and x: "0 < x" "x < 1" by auto
  have "1 < 1 / x" using x by simp
  then have c: "1 < \<lceil>1 / x\<rceil>" by linarith
  show ?case
  proof (cases "x * of_nat b < 1")
    case True
    have "0 < x * of_nat b" using x b by simp
    then have "0 < \<lceil>1 / (x * of_nat b)\<rceil>" by simp
    then show ?thesis using ilog_up_step[OF b x(1) True] x True by simp
  next
    case False
    then show ?thesis using c x by simp
  qed
qed

declare ilog.simps [simp del]

definition fl :: "rat \<Rightarrow> rat" where
  "fl x =
     (if x = 0 then 0
      else let e = ilog 2 \<bar>x\<bar> - 52
           in of_int (round_half_even (x / 2 powi e)) * 2 powi e)"

definition fmul :: "rat \<Rightarrow> rat \<Rightarrow> rat" where
  "fmul a b = fl (a * b)"

definition fadd :: "rat \<Rightarrow> rat \<Rightarrow> rat" where
  "fadd a b = fl (a + b)"

definition fsub :: "rat \<Rightarrow> rat \<Rightarrow> rat" where
  "fsub a b = fl (a - b)"

text \<open>A float literal denotes the binary64 value nearest to the decimal written.\<close>

definition float_lit :: "rat \<Rightarrow> rat" where
  "float_lit q = fl q"

text \<open>The implicit conversion of an \<^verbatim>\<open>int\<close> operand in \<^verbatim>\<open>float * int\<close>.\<close>

definition float_of_int :: "int \<Rightarrow> rat" where
  "float_of_int n = fl (of_int n)"

text \<open>
  The sign of a zero is the one thing a rational cannot carry, and \<^verbatim>\<open>round\<close> can
  produce \<^verbatim>\<open>-0.0\<close>, which prints differently.  A float stored in a row is a finite
  value, the negative zero, an infinity or NaN.  The arithmetic of \<open>score_stack\<close>
  produces only the first two; the others can reach \<open>sort_rows\<close> and the renderers in
  rows built elsewhere.
\<close>

datatype pyfloat = PFloat rat | NegZero | PosInf | NegInf | NaN

text \<open>
  \<^verbatim>\<open>round(x, ndigits)\<close> on a float: CPython converts \<open>x\<close> to the correctly rounded
  decimal with \<open>ndigits\<close> fractional digits (ties of the exact binary value go to the
  even digit), keeps the sign, and converts that decimal back to the nearest float.
\<close>

definition py_round :: "rat \<Rightarrow> nat \<Rightarrow> pyfloat" where
  "py_round x ndigits =
     (let k = round_half_even (x * 10 ^ ndigits)
      in if k = 0 \<and> x < 0 then NegZero else PFloat (fl (of_int k / 10 ^ ndigits)))"

subsection \<open>Strings of numbers\<close>

definition digit_char :: "int \<Rightarrow> char" where
  "digit_char d = char_of (48 + d)"

text \<open>The decimal digits of a non-negative integer, most significant first.\<close>

function dec_digits :: "int \<Rightarrow> string" where
  "dec_digits n =
     (if n < 10 then [digit_char n] else dec_digits (n div 10) @ [digit_char (n mod 10)])"
  by pat_completeness auto
termination
  by (relation "measure nat") auto

declare dec_digits.simps [simp del]

text \<open>\<^verbatim>\<open>str\<close> of an \<^verbatim>\<open>int\<close>.\<close>

definition int_str :: "int \<Rightarrow> string" where
  "int_str i = (if i < 0 then CHR ''-'' # dec_digits (- i) else dec_digits i)"

text \<open>
  \<^verbatim>\<open>repr\<close> of a float is the shortest decimal that converts back to the same float,
  the nearest one to the float's value when several of that length do.  With \<open>n\<close>
  digits the only candidates are the two \<open>n\<close>-digit decimals around the value.
\<close>

definition repr_candidate :: "rat \<Rightarrow> nat \<Rightarrow> (int \<times> int) option" where
  "repr_candidate y n =
     (let q = ilog 10 y - int n + 1;
          t = y / 10 powi q;
          lo = \<lfloor>t\<rfloor>;
          hi = lo + 1;
          oklo = (fl (of_int lo * 10 powi q) = y);
          okhi = (fl (of_int hi * 10 powi q) = y)
      in if oklo \<and> okhi then
           (if t - of_int lo < of_int hi - t then Some (lo, q)
            else if of_int hi - t < t - of_int lo then Some (hi, q)
            else if even lo then Some (lo, q) else Some (hi, q))
         else if oklo then Some (lo, q)
         else if okhi then Some (hi, q)
         else None)"

fun shortest_digits :: "rat \<Rightarrow> nat list \<Rightarrow> int \<times> int" where
  "shortest_digits y [] =
     (let q = ilog 10 y - 16 in (round_half_even (y / 10 powi q), q))"
| "shortest_digits y (n # ns) =
     (case repr_candidate y n of Some r \<Rightarrow> r | None \<Rightarrow> shortest_digits y ns)"

definition strip_zeros :: "string \<Rightarrow> string" where
  "strip_zeros ds = rev (dropWhile (\<lambda>c. c = CHR ''0'') (rev ds))"

definition exp_str :: "int \<Rightarrow> string" where
  "exp_str e =
     (if e < 0 then ''-'' else ''+'') @
     (let s = dec_digits \<bar>e\<bar> in if length s < 2 then CHR ''0'' # s else s)"

text \<open>
  The digits \<open>ds\<close> and the position \<open>decpt\<close> of the decimal point (the value is
  \<open>0.ds\<close> times ten to the \<open>decpt\<close>) are laid out as \<^verbatim>\<open>repr\<close> does: exponent
  notation below \<open>1e-4\<close> and from \<open>1e16\<close> on, positional notation with at least one
  fractional digit otherwise.
\<close>

definition float_repr_pos :: "rat \<Rightarrow> string" where
  "float_repr_pos y =
     (case shortest_digits y [1..<18] of
        (m, q) \<Rightarrow>
          let ds0 = dec_digits m;
              decpt = int (length ds0) + q;
              ds = strip_zeros ds0;
              n = int (length ds)
          in if decpt \<le> - 4 \<or> 16 < decpt then
               take 1 ds @ (if 1 < n then CHR ''.'' # drop 1 ds else []) @ ''e'' @ exp_str (decpt - 1)
             else if decpt \<le> 0 then ''0.'' @ replicate (nat (- decpt)) CHR ''0'' @ ds
             else if decpt < n then take (nat decpt) ds @ ''.'' @ drop (nat decpt) ds
             else ds @ replicate (nat (decpt - n)) CHR ''0'' @ ''.0'')"

fun float_repr :: "pyfloat \<Rightarrow> string" where
  "float_repr NegZero = ''-0.0''"
| "float_repr PosInf = ''inf''"
| "float_repr NegInf = ''-inf''"
| "float_repr NaN = ''nan''"
| "float_repr (PFloat x) =
     (if x = 0 then ''0.0''
      else if x < 0 then CHR ''-'' # float_repr_pos (- x)
      else float_repr_pos x)"

subsection \<open>Cell values and dictionaries\<close>

text \<open>
  A cell of a row holds a \<^verbatim>\<open>str\<close>, an \<^verbatim>\<open>int\<close> or a \<^verbatim>\<open>float\<close>.  A string is a list
  of characters with codes below 256.
\<close>

datatype pyval = VStr string | VInt int | VFloat pyfloat

text \<open>\<^verbatim>\<open>str(v)\<close>.\<close>

fun py_str :: "pyval \<Rightarrow> string" where
  "py_str (VStr s) = s"
| "py_str (VInt i) = int_str i"
| "py_str (VFloat f) = float_repr f"

text \<open>
  A \<^verbatim>\<open>dict\<close> keeps its keys in insertion order: an association list without
  repeated keys.  Assigning to a key that is present replaces the value in place,
  assigning to a new key appends the entry.
\<close>

type_synonym 'v dict = "(string \<times> 'v) list"

type_synonym row = "pyval dict"

fun dict_set :: "string \<Rightarrow> 'v \<Rightarrow> 'v dict \<Rightarrow> 'v dict" where
  "dict_set k v [] = [(k, v)]"
| "dict_set k v ((k', v') # d) = (if k' = k then (k', v) # d else (k', v') # dict_set k v d)"

text \<open>\<^verbatim>\<open>d.get(k, default)\<close>.\<close>

definition dict_get :: "'v dict \<Rightarrow> string \<Rightarrow> 'v \<Rightarrow> 'v" where
  "dict_get d k dflt = (case map_of d k of Some v \<Rightarrow> v | None \<Rightarrow> dflt)"

text \<open>\<^verbatim>\<open>d[k]\<close>, which raises \<^verbatim>\<open>KeyError\<close> on a missing key.\<close>

definition dict_item :: "'v dict \<Rightarrow> string \<Rightarrow> error + 'v" where
  "dict_item d k = (case map_of d k of Some v \<Rightarrow> Inr v | None \<Rightarrow> Inl KeyError)"

subsection \<open>String methods\<close>

definition NL :: char where
  "NL = CHR 0x0A"

text \<open>\<^verbatim>\<open>sep.join(xs)\<close>.\<close>

fun join :: "string \<Rightarrow> string list \<Rightarrow> string" where
  "join sep [] = []"
| "join sep [x] = x"
| "join sep (x # y # ys) = x @ sep @ join sep (y # ys)"

text \<open>\<^verbatim>\<open>s.ljust(w)\<close>: pads with spaces on the right, never truncates.\<close>

definition ljust :: "string \<Rightarrow> nat \<Rightarrow> string" where
  "ljust s w = s @ replicate (w - length s) CHR '' ''"

text \<open>
  \<^verbatim>\<open>s.upper()\<close> on ASCII text.  The program applies it to the header names only, which
  are ASCII; there it maps the letters \<open>a\<close> to \<open>z\<close> to capitals and keeps the rest.
\<close>

definition upper_char :: "char \<Rightarrow> char" where
  "upper_char c =
     (let n = (of_char c :: int) in if 97 \<le> n \<and> n \<le> 122 then char_of (n - 32) else c)"

definition upper :: "string \<Rightarrow> string" where
  "upper s = map upper_char s"

text \<open>\<^verbatim>\<open>s.replace(old, new)\<close> for a one-character \<open>old\<close>.\<close>

definition replace_char :: "char \<Rightarrow> string \<Rightarrow> string \<Rightarrow> string" where
  "replace_char old new s = concat (map (\<lambda>c. if c = old then new else [c]) s)"

subsection \<open>Comparison and \<^verbatim>\<open>sorted\<close>\<close>

fun is_str :: "pyval \<Rightarrow> bool" where
  "is_str (VStr s) = True"
| "is_str v = False"

fun is_nan :: "pyval \<Rightarrow> bool" where
  "is_nan (VFloat NaN) = True"
| "is_nan v = False"

text \<open>
  The place of a number on the extended number line: the negative infinity before
  every finite value, the positive infinity after; both zeros at 0.
\<close>

fun num_rank :: "pyval \<Rightarrow> int \<times> rat" where
  "num_rank (VInt i) = (0, of_int i)"
| "num_rank (VFloat (PFloat x)) = (0, x)"
| "num_rank (VFloat NegZero) = (0, 0)"
| "num_rank (VFloat PosInf) = (1, 0)"
| "num_rank (VFloat NegInf) = (- 1, 0)"
| "num_rank v = (0, 0)"

text \<open>
  \<open>a < b\<close> on numbers, \<^verbatim>\<open>int\<close> and \<^verbatim>\<open>float\<close> alike: by their exact value, and
  false both ways as soon as one of them is NaN.
\<close>

definition num_lt :: "pyval \<Rightarrow> pyval \<Rightarrow> bool" where
  "num_lt a b =
     (\<not> is_nan a \<and> \<not> is_nan b
      \<and> (fst (num_rank a) < fst (num_rank b)
           \<or> (fst (num_rank a) = fst (num_rank b) \<and> snd (num_rank a) < snd (num_rank b))))"

text \<open>
  \<open>a < b\<close> on cell values: strings compare lexicographically by character code,
  numbers by \<open>num_lt\<close>.  A string against a number raises \<^verbatim>\<open>TypeError\<close>; \<open>py_lt\<close>
  is only consulted on keys that \<open>comparable\<close> has admitted.
\<close>

fun py_lt :: "pyval \<Rightarrow> pyval \<Rightarrow> bool" where
  "py_lt (VStr a) (VStr b) = (a < b)"
| "py_lt (VStr a) b = False"
| "py_lt a (VStr b) = False"
| "py_lt a b = num_lt a b"

definition comparable :: "pyval list \<Rightarrow> bool" where
  "comparable ks = (list_all is_str ks \<or> list_all (\<lambda>k. \<not> is_str k) ks)"

text \<open>
  \<^verbatim>\<open>sorted(xs, key=f, reverse=r)\<close> is a stable sort by \<open><\<close> on the keys.  With
  \<^verbatim>\<open>reverse=True\<close> CPython reverses the list, sorts it and reverses the result, which
  keeps elements with equal keys in their original order.  A list of fewer than two
  elements is never compared.  With two or more elements every element is compared
  with another, runs of the list are built from neighbours and merged with each other,
  so among keys that are not all strings or all numbers some string meets a number and
  \<^verbatim>\<open>TypeError\<close> is raised.  When the keys are numbers and one of them is NaN, \<open><\<close>
  is no order and the arrangement \<^verbatim>\<open>sorted\<close> returns depends on the steps of the
  implementation, which differ between versions of CPython: that arrangement is the
  parameter \<open>unordered\<close>, about which nothing is assumed.
\<close>

fun insort_lt :: "('a \<Rightarrow> pyval) \<Rightarrow> 'a \<Rightarrow> 'a list \<Rightarrow> 'a list" where
  "insort_lt f x [] = [x]"
| "insort_lt f x (y # ys) = (if py_lt (f y) (f x) then y # insort_lt f x ys else x # y # ys)"

fun stable_sort :: "('a \<Rightarrow> pyval) \<Rightarrow> 'a list \<Rightarrow> 'a list" where
  "stable_sort f [] = []"
| "stable_sort f (x # xs) = insort_lt f x (stable_sort f xs)"

definition py_sorted :: "'a list \<Rightarrow> 'a list \<Rightarrow> ('a \<Rightarrow> pyval) \<Rightarrow> bool \<Rightarrow> error + 'a list" where
  "py_sorted unordered xs f reverse =
     (if 2 \<le> length xs \<and> \<not> comparable (map f xs) then Inl TypeError
      else if 2 \<le> length xs \<and> list_ex is_nan (map f xs) then Inr unordered
      else Inr (if reverse then rev (stable_sort f (rev xs)) else stable_sort f xs))"

subsection \<open>\<^verbatim>\<open>json.dumps(rows, indent=2, sort_keys=True)\<close>\<close>

definition hex_digit :: "int \<Rightarrow> char" where
  "hex_digit d = (if d < 10 then char_of (48 + d) else char_of (87 + d))"

text \<open>
  With the default \<^verbatim>\<open>ensure_ascii\<close>, a string is written between double quotes; the
  quote, the backslash and the control characters are escaped, and so is every
  character outside the printable ASCII range.
\<close>

definition json_char :: "char \<Rightarrow> string" where
  "json_char c =
     (let n = (of_char c :: int)
      in if c = CHR 0x22 then [CHR 0x5C, CHR 0x22]
         else if n = 0x5C then [CHR 0x5C, CHR 0x5C]
         else if n = 0x0A then [CHR 0x5C, CHR ''n'']
         else if n = 0x0D then [CHR 0x5C, CHR ''r'']
         else if n = 0x09 then [CHR 0x5C, CHR ''t'']
         else if n = 0x08 then [CHR 0x5C, CHR ''b'']
         else if n = 0x0C then [CHR 0x5C, CHR ''f'']
         else if 32 \<le> n \<and> n \<le> 126 then [c]
         else [CHR 0x5C, CHR ''u'', CHR ''0'', CHR ''0'', hex_digit (n div 16), hex_digit (n mod 16)])"

definition json_string :: "string \<Rightarrow> string" where
  "json_string s = [CHR 0x22] @ concat (map json_char s) @ [CHR 0x22]"

text \<open>A float is written by its \<^verbatim>\<open>repr\<close>, except the three values JSON has no number for.\<close>

fun json_float :: "pyfloat \<Rightarrow> string" where
  "json_float PosInf = ''Infinity''"
| "json_float NegInf = ''-Infinity''"
| "json_float NaN = ''NaN''"
| "json_float f = float_repr f"

fun json_value :: "pyval \<Rightarrow> string" where
  "json_value (VStr s) = json_string s"
| "json_value (VInt i) = int_str i"
| "json_value (VFloat f) = json_float f"

text \<open>
  An object at nesting level 1: its items sorted by key, one per line at four spaces;
  the closing brace at two.  An empty object is \<open>{}\<close>.
\<close>

definition json_object :: "row \<Rightarrow> string" where
  "json_object r =
     (if r = [] then ''{}''
      else ''{'' @ [NL] @
           join ('','' @ [NL])
             (map (\<lambda>(k, v). ''    '' @ json_string k @ '': '' @ json_value v) (sort_key fst r)) @
           [NL] @ ''  }'')"

definition json_dumps :: "row list \<Rightarrow> string" where
  "json_dumps rows =
     (if rows = [] then ''[]''
      else ''['' @ [NL] @ join ('','' @ [NL]) (map (\<lambda>r. ''  '' @ json_object r) rows) @ [NL] @ '']'')"

section \<open>The program\<close>

subsection \<open>The catalog\<close>

record PrivacyStack =
  key :: string
  name :: string
  family :: string
  description :: string
  privacy_level :: int
  soundness_focus :: int
  performance_cost :: int
  dev_complexity :: int
  ecosystem_maturity :: int

definition aztec :: PrivacyStack where
  "aztec = \<lparr>key = ''aztec'', name = ''Aztec-style zk Rollup'', family = ''zk-SNARK privacy L2'',
     description = ''Encrypted L2 state and zero-knowledge proofs over Ethereum.'',
     privacy_level = 9, soundness_focus = 8, performance_cost = 7, dev_complexity = 8,
     ecosystem_maturity = 7\<rparr>"

definition zama :: PrivacyStack where
  "zama = \<lparr>key = ''zama'', name = ''Zama-style FHE Compute'', family = ''FHE + Web3'',
     description = ''Fully homomorphic encryption over on-chain or off-chain data.'',
     privacy_level = 8, soundness_focus = 9, performance_cost = 9, dev_complexity = 9,
     ecosystem_maturity = 5\<rparr>"

definition soundness :: PrivacyStack where
  "soundness = \<lparr>key = ''soundness'', name = ''Soundness-first Lab'', family = ''Formal verification'',
     description = ''Specification-driven, proof-oriented engineering for Web3 protocols.'',
     privacy_level = 6, soundness_focus = 10, performance_cost = 6, dev_complexity = 7,
     ecosystem_maturity = 8\<rparr>"

definition STACKS :: "PrivacyStack dict" where
  "STACKS = [(''aztec'', aztec), (''zama'', zama), (''soundness'', soundness)]"

definition FIELDS_ORDER :: "string list" where
  "FIELDS_ORDER = [''key'', ''name'', ''family'', ''privacy_level'', ''soundness_focus'',
     ''performance_cost'', ''dev_complexity'', ''ecosystem_maturity'']"

definition list_keys :: "string list" where
  "list_keys = map fst STACKS"

text \<open>\<^verbatim>\<open>asdict\<close> lists every field of the dataclass, in declaration order.\<close>

definition to_dict :: "PrivacyStack \<Rightarrow> row" where
  "to_dict s =
     [(''key'', VStr (key s)),
      (''name'', VStr (name s)),
      (''family'', VStr (family s)),
      (''description'', VStr (description s)),
      (''privacy_level'', VInt (privacy_level s)),
      (''soundness_focus'', VInt (soundness_focus s)),
      (''performance_cost'', VInt (performance_cost s)),
      (''dev_complexity'', VInt (dev_complexity s)),
      (''ecosystem_maturity'', VInt (ecosystem_maturity s))]"

subsection \<open>Scoring\<close>

definition score_stack :: "PrivacyStack \<Rightarrow> pyfloat" where
  "score_stack s =
     (let benefit = fadd (fmul (float_lit (45 / 100)) (float_of_int (privacy_level s)))
                         (fmul (float_lit (40 / 100)) (float_of_int (soundness_focus s)));
          penalty = fadd (fmul (float_lit (10 / 100)) (float_of_int (performance_cost s)))
                         (fmul (float_lit (5 / 100)) (float_of_int (dev_complexity s)))
      in py_round (fsub benefit penalty) 2)"

text \<open>The float that \<open>score_stack\<close> hands to \<^verbatim>\<open>round\<close>, as a function of the four attributes.\<close>

definition raw_score :: "int \<Rightarrow> int \<Rightarrow> int \<Rightarrow> int \<Rightarrow> rat" where
  "raw_score p so c d =
     fsub (fadd (fmul (float_lit (45 / 100)) (float_of_int p))
                (fmul (float_lit (40 / 100)) (float_of_int so)))
          (fadd (fmul (float_lit (10 / 100)) (float_of_int c))
                (fmul (float_lit (5 / 100)) (float_of_int d)))"

subsection \<open>Rows\<close>

text \<open>The loop of \<^verbatim>\<open>build_rows\<close>, with the list \<open>rows\<close> built so far.\<close>

fun build_rows_loop :: "PrivacyStack list \<Rightarrow> bool \<Rightarrow> row list \<Rightarrow> row list" where
  "build_rows_loop [] include_score rows = rows"
| "build_rows_loop (s # selected) include_score rows =
     (let row = to_dict s;
          row = (if include_score then dict_set ''composite_score'' (VFloat (score_stack s)) row
                 else row)
      in build_rows_loop selected include_score (rows @ [row]))"

definition build_rows :: "PrivacyStack list \<Rightarrow> bool \<Rightarrow> row list" where
  "build_rows selected include_score = build_rows_loop selected include_score []"

subsection \<open>The table\<close>

definition headers_of :: "bool \<Rightarrow> string list" where
  "headers_of include_score =
     (if include_score then FIELDS_ORDER @ [''composite_score''] else FIELDS_ORDER)"

text \<open>
  \<open>col_widths\<close> is only ever read at a header that the first loop has set, so it is
  modelled as a function from header names to widths.
\<close>

fun init_widths :: "string list \<Rightarrow> (string \<Rightarrow> nat) \<Rightarrow> (string \<Rightarrow> nat)" where
  "init_widths [] col_widths = col_widths"
| "init_widths (h # hs) col_widths = init_widths hs (col_widths(h := length h))"

fun widen_by_row :: "row \<Rightarrow> string list \<Rightarrow> (string \<Rightarrow> nat) \<Rightarrow> (string \<Rightarrow> nat)" where
  "widen_by_row row [] col_widths = col_widths"
| "widen_by_row row (h # hs) col_widths =
     (let v = dict_get row h (VStr [])
      in widen_by_row row hs (col_widths(h := max (col_widths h) (length (py_str v)))))"

fun widen_by_rows :: "row list \<Rightarrow> string list \<Rightarrow> (string \<Rightarrow> nat) \<Rightarrow> (string \<Rightarrow> nat)" where
  "widen_by_rows [] headers col_widths = col_widths"
| "widen_by_rows (row # rows) headers col_widths =
     widen_by_rows rows headers (widen_by_row row headers col_widths)"

definition compute_widths :: "row list \<Rightarrow> string list \<Rightarrow> (string \<Rightarrow> nat)" where
  "compute_widths rows headers = widen_by_rows rows headers (init_widths headers (\<lambda>h. 0))"

definition table_line :: "(string \<Rightarrow> nat) \<Rightarrow> string list \<Rightarrow> row \<Rightarrow> string" where
  "table_line col_widths headers row =
     join ''  '' (map (\<lambda>h. ljust (py_str (dict_get row h (VStr []))) (col_widths h)) headers)"

fun table_lines_loop ::
  "(string \<Rightarrow> nat) \<Rightarrow> string list \<Rightarrow> row list \<Rightarrow> string list \<Rightarrow> string list" where
  "table_lines_loop col_widths headers [] lines = lines"
| "table_lines_loop col_widths headers (row # rows) lines =
     table_lines_loop col_widths headers rows (lines @ [table_line col_widths headers row])"

definition format_table :: "row list \<Rightarrow> bool \<Rightarrow> string" where
  "format_table rows include_score =
     (let headers = headers_of include_score;
          col_widths = compute_widths rows headers;
          header_line = join ''  '' (map (\<lambda>h. ljust (upper h) (col_widths h)) headers);
          separator = join ''  '' (map (\<lambda>h. replicate (col_widths h) CHR ''-'') headers);
          lines = table_lines_loop col_widths headers rows [header_line, separator]
      in join [NL] lines)"

subsection \<open>CSV\<close>

definition esc :: "pyval \<Rightarrow> string" where
  "esc v =
     (let s = py_str v
      in if list_ex (\<lambda>c. c \<in> set s) [CHR '','', CHR 0x22, NL]
         then [CHR 0x22] @ replace_char (CHR 0x22) [CHR 0x22, CHR 0x22] s @ [CHR 0x22]
         else s)"

definition csv_line :: "string list \<Rightarrow> row \<Rightarrow> string" where
  "csv_line headers row = join '','' (map (\<lambda>h. esc (dict_get row h (VStr []))) headers)"

fun csv_lines_loop :: "string list \<Rightarrow> row list \<Rightarrow> string list \<Rightarrow> string list" where
  "csv_lines_loop headers [] out_lines = out_lines"
| "csv_lines_loop headers (row # rows) out_lines =
     csv_lines_loop headers rows (out_lines @ [csv_line headers row])"

definition format_csv :: "row list \<Rightarrow> bool \<Rightarrow> string" where
  "format_csv rows include_score =
     (let headers = headers_of include_score;
          out_lines = csv_lines_loop headers rows [join '','' headers]
      in join [NL] out_lines)"

subsection \<open>Selecting and sorting\<close>

definition select_stacks :: "string \<Rightarrow> error + PrivacyStack list" where
  "select_stacks k =
     (if k = ''all'' then Inr (map snd STACKS)
      else case dict_item STACKS k of Inl e \<Rightarrow> Inl e | Inr s \<Rightarrow> Inr [s])"

text \<open>
  \<open>nan_sorted rows f descending\<close> stands for the arrangement of \<open>rows\<close> that
  \<^verbatim>\<open>sorted\<close> returns when a key under \<open>f\<close> is NaN.
\<close>

type_synonym nan_order = "row list \<Rightarrow> string \<Rightarrow> bool \<Rightarrow> row list"

definition sort_rows :: "nan_order \<Rightarrow> row list \<Rightarrow> string option \<Rightarrow> bool \<Rightarrow> error + row list" where
  "sort_rows nan_sorted rows sort_by descending =
     (case sort_by of
        None \<Rightarrow> Inr rows
      | Some f \<Rightarrow>
          if f = [] then Inr rows
          else py_sorted (nan_sorted rows f descending) rows (\<lambda>r. dict_get r f (VInt 0))
                 descending)"

subsection \<open>The command line\<close>

text \<open>
  The options of one invocation, defaults filled in: \<open>stack\<close> is \<open>all\<close> and \<open>format\<close>
  is \<open>table\<close> unless given, \<open>sort_by\<close> is \<open>None\<close> unless given.  \<^verbatim>\<open>parse_args\<close>
  accepts them when each is one of its option's \<^verbatim>\<open>choices\<close>, and leaves the program
  with a usage error otherwise.
\<close>

record args =
  stack :: string
  format :: string
  include_score :: bool
  sort_by :: "string option"
  descending :: bool

datatype 'a outcome = UsageError | Raised error | Printed 'a

definition parse_args :: "args \<Rightarrow> args option" where
  "parse_args a =
     (if stack a \<in> set (list_keys @ [''all''])
         \<and> format a \<in> set [''table'', ''csv'', ''json'']
         \<and> (case sort_by a of None \<Rightarrow> True
             | Some f \<Rightarrow> f \<in> set (FIELDS_ORDER @ [''composite_score'']))
      then Some a else None)"

text \<open>
  The loop of \<^verbatim>\<open>main\<close> that adds the score to every row, looking the stack up again
  through the row's \<open>key\<close> cell.
\<close>

definition stacks_item :: "pyval \<Rightarrow> error + PrivacyStack" where
  "stacks_item k = (case k of VStr n \<Rightarrow> dict_item STACKS n | _ \<Rightarrow> Inl KeyError)"

fun attach_scores :: "row list \<Rightarrow> error + row list" where
  "attach_scores [] = Inr []"
| "attach_scores (r # rows) =
     (case dict_item r ''key'' of
        Inl e \<Rightarrow> Inl e
      | Inr k \<Rightarrow>
          (case stacks_item k of
             Inl e \<Rightarrow> Inl e
           | Inr s \<Rightarrow>
               (case attach_scores rows of
                  Inl e \<Rightarrow> Inl e
                | Inr rows' \<Rightarrow>
                    Inr (dict_set ''composite_score'' (VFloat (score_stack s)) r # rows'))))"

text \<open>The rows that \<^verbatim>\<open>main\<close> hands to its renderer: selected, built, scored, sorted.\<close>

definition main_rows :: "nan_order \<Rightarrow> args \<Rightarrow> error + row list" where
  "main_rows nan_sorted a =
     (case select_stacks (stack a) of
        Inl e \<Rightarrow> Inl e
      | Inr stacks \<Rightarrow>
          (case (if sort_by a = Some ''composite_score'' \<and> \<not> include_score a
                 then attach_scores (build_rows stacks (include_score a))
                 else Inr (build_rows stacks (include_score a))) of
             Inl e \<Rightarrow> Inl e
           | Inr rows \<Rightarrow> sort_rows nan_sorted rows (sort_by a) (descending a)))"

definition render :: "args \<Rightarrow> row list \<Rightarrow> string" where
  "render a rows =
     (if format a = ''json'' then json_dumps rows
      else if format a = ''csv''
      then format_csv rows (include_score a \<or> sort_by a = Some ''composite_score'')
      else format_table rows (include_score a \<or> sort_by a = Some ''composite_score''))"

text \<open>What \<^verbatim>\<open>main\<close> writes to standard output: \<^verbatim>\<open>print\<close> ends the text with a newline.\<close>

definition main :: "nan_order \<Rightarrow> args \<Rightarrow> string outcome" where
  "main nan_sorted raw =
     (case parse_args raw of
        None \<Rightarrow> UsageError
      | Some a \<Rightarrow>
          (case main_rows nan_sorted a of
             Inl e \<Rightarrow> Raised e
           | Inr rows \<Rightarrow> Printed (render a rows @ [NL])))"

section \<open>The specification's reading of the score\<close>

text \<open>
  The attributes of a stack are documented as integers from 1 to 10.  The specification
  gives the score as a formula over decimal numbers, rounded to two decimals; it is
  written here over the rationals, with ties going to the even digit, as a second
  definition to compare \<open>score_stack\<close> with.
\<close>

definition in_range :: "PrivacyStack \<Rightarrow> bool" where
  "in_range s =
     (1 \<le> privacy_level s \<and> privacy_level s \<le> 10 \<and>
      1 \<le> soundness_focus s \<and> soundness_focus s \<le> 10 \<and>
      1 \<le> performance_cost s \<and> performance_cost s \<le> 10 \<and>
      1 \<le> dev_complexity s \<and> dev_complexity s \<le> 10 \<and>
      1 \<le> ecosystem_maturity s \<and> ecosystem_maturity s \<le> 10)"

definition round2 :: "rat \<Rightarrow> rat" where
  "round2 x = of_int (round_half_even (x * 100)) / 100"

definition spec_score :: "PrivacyStack \<Rightarrow> rat" where
  "spec_score s =
     (let benefit = 45 / 100 * of_int (privacy_level s) + 40 / 100 * of_int (soundness_focus s);
          penalty = 10 / 100 * of_int (performance_cost s) + 5 / 100 * of_int (dev_complexity s)
      in round2 (benefit - penalty))"

definition hundredths :: "PrivacyStack \<Rightarrow> int" where
  "hundredths s = 45 * privacy_level s + 40 * soundness_focus s
                   - (10 * performance_cost s + 5 * dev_complexity s)"

section \<open>The specification's reading of a stable sort\<close>

text \<open>
  Two keys are equal for \<^verbatim>\<open>sorted\<close> when neither is less than the other.  A list is in
  ascending order of its keys when no element's key is less than the key of an element
  before it, and in descending order when no element's key is greater.
\<close>

definition key_eq :: "pyval \<Rightarrow> pyval \<Rightarrow> bool" where
  "key_eq a b = (\<not> py_lt a b \<and> \<not> py_lt b a)"

definition in_order :: "('a \<Rightarrow> pyval) \<Rightarrow> bool \<Rightarrow> 'a list \<Rightarrow> bool" where
  "in_order f reverse xs =
     (if reverse then sorted_wrt (\<lambda>x y. \<not> py_lt (f x) (f y)) xs
      else sorted_wrt (\<lambda>x y. \<not> py_lt (f y) (f x)) xs)"

text \<open>The key \<^verbatim>\<open>sort_rows\<close> sorts by: \<^verbatim>\<open>r.get(sort_by, 0)\<close>.\<close>

definition sort_key_of :: "string \<Rightarrow> row \<Rightarrow> pyval" where
  "sort_key_of f r = dict_get r f (VInt 0)"

section \<open>The specification's reading of CSV quoting\<close>

text \<open>
  Reading a cell back by the quoting rules: a cell that starts with a double quote is
  stripped of its first and last character and every doubled quote inside becomes one;
  any other cell is taken as it is.
\<close>

fun undouble :: "string \<Rightarrow> string" where
  "undouble (c # d # cs) =
     (if c = CHR 0x22 \<and> d = CHR 0x22 then CHR 0x22 # undouble cs else c # undouble (d # cs))"
| "undouble cs = cs"

definition unquote :: "string \<Rightarrow> string" where
  "unquote s = (case s of [] \<Rightarrow> [] | c # cs \<Rightarrow> if c = CHR 0x22 then undouble (butlast cs) else s)"

section \<open>The specification's reading of a table cell\<close>

text \<open>The stringified value of a row in a column; a row without the field has the empty string.\<close>

definition cell_text :: "row \<Rightarrow> string \<Rightarrow> string" where
  "cell_text r h = py_str (dict_get r h (VStr []))"

section \<open>The specification's reading of columns\<close>

text \<open>A row restricted to the fields of a header list.\<close>

definition project :: "string list \<Rightarrow> row \<Rightarrow> row" where
  "project hs r = filter (\<lambda>(k, v). k \<in> set hs) r"

text \<open>The condition under which the score column is shown.\<close>

definition show_score :: "args \<Rightarrow> bool" where
  "show_score a = (include_score a \<or> sort_by a = Some ''composite_score'')"

section \<open>Writing out expected output\<close>

text \<open>A text given by its lines, each ended by a newline, and a word between double quotes.\<close>

definition unlines :: "string list \<Rightarrow> string" where
  "unlines ls = concat (map (\<lambda>l. l @ [NL]) ls)"


section \<open>Properties of the float model\<close>

lemma round_half_even_err: "\<bar>of_int (round_half_even x) - x\<bar> \<le> 1 / 2"
proof -
  have "of_int \<lfloor>x\<rfloor> \<le> x" "x < of_int \<lfloor>x\<rfloor> + 1" by linarith+
  then show ?thesis
    by (auto simp: round_half_even_def Let_def)
qed

lemma round_half_even_near:
  assumes "\<bar>x - of_int k\<bar> < 1 / 2"
  shows "round_half_even x = k"
proof -
  have "\<bar>of_int (round_half_even x) - x\<bar> \<le> 1 / 2" by (rule round_half_even_err)
  with assms have "\<bar>(of_int (round_half_even x) :: rat) - of_int k\<bar> < 1" by linarith
  then have "\<bar>(of_int (round_half_even x - k) :: rat)\<bar> < 1" by simp
  then have "\<bar>round_half_even x - k\<bar> < 1"
    by (metis of_int_abs of_int_less_1_iff)
  then show ?thesis by linarith
qed

lemma round_half_even_of_int: "round_half_even (of_int k) = k"
  by (rule round_half_even_near) simp

lemma ilog_bounds:
  "0 < x \<Longrightarrow> 2 \<le> b \<Longrightarrow> of_nat b powi (ilog b x) \<le> x \<and> x < of_nat b powi (ilog b x + 1)"
proof (induction b x rule: ilog.induct)
  case (1 b x)
  have bpos: "(0::rat) < of_nat b" using 1(4) by simp
  then have bne: "(of_nat b :: rat) \<noteq> 0" by simp
  show ?case
  proof (cases "of_nat b \<le> x")
    case True
    have pos: "0 < x / of_nat b" using 1(3) bpos by simp
    have ih: "of_nat b powi ilog b (x / of_nat b) \<le> x / of_nat b \<and>
        x / of_nat b < of_nat b powi (ilog b (x / of_nat b) + 1)"
      using 1(1)[OF _ True pos 1(4)] 1(3,4) by simp
    have eq: "ilog b x = ilog b (x / of_nat b) + 1"
      using True 1(3,4) by (subst ilog.simps) simp
    define P where "P = (of_nat b :: rat) powi ilog b (x / of_nat b)"
    have p1: "(of_nat b :: rat) powi (ilog b (x / of_nat b) + 1) = P * of_nat b"
      unfolding P_def using bne by (intro power_int_add_1) blast
    have p2: "(of_nat b :: rat) powi (ilog b (x / of_nat b) + 1 + 1) = P * of_nat b * of_nat b"
      unfolding p1[symmetric] using bne by (intro power_int_add_1) blast
    have "P * of_nat b \<le> x" using ih bpos by (simp add: P_def pos_le_divide_eq)
    moreover have "x < P * of_nat b * of_nat b"
      using ih bpos unfolding p1 by (simp add: pos_divide_less_eq)
    ultimately show ?thesis unfolding eq p1 p2 by simp
  next
    case False
    show ?thesis
    proof (cases "x < 1")
      case True
      have pos: "0 < x * of_nat b" using 1(3) bpos by simp
      have ih: "of_nat b powi ilog b (x * of_nat b) \<le> x * of_nat b \<and>
          x * of_nat b < of_nat b powi (ilog b (x * of_nat b) + 1)"
        using 1(2)[OF _ False True pos 1(4)] 1(3,4) by simp
      have eq: "ilog b x = ilog b (x * of_nat b) - 1"
        using True False 1(3,4) by (subst ilog.simps) simp
      define P where "P = (of_nat b :: rat) powi (ilog b (x * of_nat b) - 1)"
      have p1: "(of_nat b :: rat) powi ilog b (x * of_nat b) = P * of_nat b"
        unfolding P_def using bne by (intro power_int_minus_mult[symmetric]) blast
      have p2: "(of_nat b :: rat) powi (ilog b (x * of_nat b) + 1) = P * of_nat b * of_nat b"
        unfolding p1[symmetric] using bne by (intro power_int_add_1) blast
      have "P \<le> x" using ih bpos unfolding p1 by simp
      moreover have "x < P * of_nat b" using ih bpos unfolding p2 by simp
      ultimately show ?thesis unfolding eq by (simp add: p1 P_def[symmetric])
    next
      case F2: False
      have eq: "ilog b x = 0"
        using False F2 1(3,4) by (subst ilog.simps) simp
      show ?thesis using False F2 unfolding eq by simp
    qed
  qed
qed

lemma fl_err: "\<bar>fl x - x\<bar> \<le> \<bar>x\<bar> / 2 ^ 53"
proof (cases "x = 0")
  case True
  then show ?thesis by (simp add: fl_def)
next
  case False
  define e where "e = ilog 2 \<bar>x\<bar> - 52"
  define s :: rat where "s = 2 powi e"
  define m where "m = round_half_even (x / s)"
  have spos: "0 < s" by (simp add: s_def)
  have flx: "fl x = of_int m * s"
    using False by (simp add: fl_def Let_def e_def s_def m_def)
  have "2 powi (ilog 2 \<bar>x\<bar>) \<le> \<bar>x\<bar>"
    using ilog_bounds[of "\<bar>x\<bar>" 2] False by simp
  moreover have "(2::rat) powi (ilog 2 \<bar>x\<bar>) = s * 2 ^ 52"
    by (simp add: s_def e_def power_int_diff)
  ultimately have sle: "s * 2 ^ 52 \<le> \<bar>x\<bar>" by simp
  have "\<bar>of_int m - x / s\<bar> \<le> 1 / 2" unfolding m_def by (rule round_half_even_err)
  then have "\<bar>of_int m - x / s\<bar> * s \<le> 1 / 2 * s"
    using spos by (intro mult_right_mono) auto
  moreover have "\<bar>of_int m - x / s\<bar> * s = \<bar>of_int m * s - x\<bar>"
  proof -
    have "\<bar>of_int m - x / s\<bar> * s = \<bar>(of_int m - x / s) * s\<bar>"
      using spos by (simp add: abs_mult)
    also have "(of_int m - x / s) * s = of_int m * s - x"
      using spos by (simp add: left_diff_distrib)
    finally show ?thesis .
  qed
  ultimately have "\<bar>fl x - x\<bar> \<le> s / 2" by (simp add: flx)
  also have "\<dots> \<le> \<bar>x\<bar> / 2 ^ 53" using sle by simp
  finally show ?thesis .
qed

lemma fl_near: "\<bar>x\<bar> \<le> 16 \<Longrightarrow> \<bar>fl x - x\<bar> \<le> 1 / 2 ^ 49"
proof -
  assume a: "\<bar>x\<bar> \<le> 16"
  have "\<bar>fl x - x\<bar> \<le> \<bar>x\<bar> / 2 ^ 53" by (rule fl_err)
  also have "\<dots> \<le> 16 / 2 ^ 53" using a by (intro divide_right_mono) auto
  also have "\<dots> = 1 / 2 ^ 49" by simp
  finally show ?thesis .
qed

lemma term_err:
  assumes q: "0 \<le> q" "q \<le> 1" and n: "1 \<le> n" "n \<le> 10"
  shows "\<bar>fmul (float_lit q) (float_of_int n) - q * of_int n\<bar> \<le> 13 / 2 ^ 49"
proof -
  define c where "c = float_lit q"
  define f where "f = float_of_int n"
  define N :: rat where "N = of_int n"
  define d :: rat where "d = 1 / 2 ^ 49"
  have dpos: "0 < d" and dsmall: "d \<le> 1 / 4" by (simp_all add: d_def)
  have N: "1 \<le> N" "N \<le> 10" using n by (simp_all add: N_def)
  have c: "\<bar>c - q\<bar> \<le> d" unfolding c_def float_lit_def d_def using q by (intro fl_near) simp
  have f: "\<bar>f - N\<bar> \<le> d" unfolding f_def float_of_int_def d_def N_def[symmetric]
    using N by (intro fl_near) simp
  have cb: "\<bar>c\<bar> \<le> 2" using c q dsmall by linarith
  have "\<bar>c * (f - N)\<bar> = \<bar>c\<bar> * \<bar>f - N\<bar>" by (simp add: abs_mult)
  also have "\<dots> \<le> 2 * d" using cb f by (intro mult_mono) auto
  finally have e1: "\<bar>c * (f - N)\<bar> \<le> 2 * d" .
  have "\<bar>(c - q) * N\<bar> = \<bar>c - q\<bar> * \<bar>N\<bar>" by (simp add: abs_mult)
  also have "\<dots> \<le> d * 10" using c N by (intro mult_mono) auto
  finally have e2: "\<bar>(c - q) * N\<bar> \<le> 10 * d" by simp
  have split: "c * f - q * N = c * (f - N) + (c - q) * N" by (simp add: algebra_simps)
  have e3: "\<bar>c * f - q * N\<bar> \<le> 12 * d" unfolding split using e1 e2 by linarith
  have "0 \<le> q * N" using q N by simp
  moreover have "q * N \<le> 1 * 10" using q N by (intro mult_mono) auto
  ultimately have qN: "\<bar>q * N\<bar> \<le> 10" by simp
  have "\<bar>c * f\<bar> \<le> 16" using e3 qN dsmall by linarith
  then have "\<bar>fl (c * f) - c * f\<bar> \<le> d" unfolding d_def by (rule fl_near)
  then have "\<bar>fl (c * f) - q * N\<bar> \<le> 13 * d" using e3 by linarith
  then show ?thesis by (simp add: fmul_def c_def f_def N_def d_def)
qed

lemma sum_err:
  assumes "\<bar>a - A\<bar> \<le> 13 / 2 ^ 49" "\<bar>b - B\<bar> \<le> 13 / 2 ^ 49" "0 \<le> A" "A \<le> 5" "0 \<le> B" "B \<le> 5"
  shows "\<bar>fadd a b - (A + B)\<bar> \<le> 27 / 2 ^ 49"
proof -
  define d :: rat where "d = 1 / 2 ^ 49"
  have dsmall: "0 < d" "d \<le> 1 / 64" by (simp_all add: d_def)
  have ab: "\<bar>a - A\<bar> \<le> 13 * d" "\<bar>b - B\<bar> \<le> 13 * d" using assms(1,2) by (simp_all add: d_def)
  then have "\<bar>a + b\<bar> \<le> 16" using assms(3-6) dsmall by linarith
  then have "\<bar>fl (a + b) - (a + b)\<bar> \<le> d" unfolding d_def by (rule fl_near)
  then have "\<bar>fl (a + b) - (A + B)\<bar> \<le> 27 * d" using ab by linarith
  then show ?thesis by (simp add: fadd_def d_def)
qed

lemma diff_err:
  assumes "\<bar>a - A\<bar> \<le> 27 / 2 ^ 49" "\<bar>b - B\<bar> \<le> 27 / 2 ^ 49" "0 \<le> A" "A \<le> 10" "0 \<le> B" "B \<le> 5"
  shows "\<bar>fsub a b - (A - B)\<bar> \<le> 55 / 2 ^ 49"
proof -
  define d :: rat where "d = 1 / 2 ^ 49"
  have dsmall: "0 < d" "d \<le> 1 / 64" by (simp_all add: d_def)
  have ab: "\<bar>a - A\<bar> \<le> 27 * d" "\<bar>b - B\<bar> \<le> 27 * d" using assms(1,2) by (simp_all add: d_def)
  then have "\<bar>a - b\<bar> \<le> 16" using assms(3-6) dsmall by linarith
  then have "\<bar>fl (a - b) - (a - b)\<bar> \<le> d" unfolding d_def by (rule fl_near)
  then have "\<bar>fl (a - b) - (A - B)\<bar> \<le> 55 * d" using ab by linarith
  then show ?thesis by (simp add: fsub_def d_def)
qed

lemma spec_score_exact: "spec_score s = of_int (hundredths s) / 100"
proof -
  have "(45 / 100 * of_int (privacy_level s) + 40 / 100 * of_int (soundness_focus s)
        - (10 / 100 * of_int (performance_cost s) + 5 / 100 * of_int (dev_complexity s))) * 100
        = (of_int (hundredths s) :: rat)"
    by (simp add: hundredths_def algebra_simps)
  then show ?thesis
    by (simp add: spec_score_def round2_def Let_def round_half_even_of_int)
qed

lemma raw_score_rounds:
  assumes "in_range s"
  shows "round_half_even
           (raw_score (privacy_level s) (soundness_focus s) (performance_cost s) (dev_complexity s) * 100)
         = hundredths s"
proof -
  define p :: rat where "p = of_int (privacy_level s)"
  define so :: rat where "so = of_int (soundness_focus s)"
  define c :: rat where "c = of_int (performance_cost s)"
  define d :: rat where "d = of_int (dev_complexity s)"
  have r: "1 \<le> p" "p \<le> 10" "1 \<le> so" "so \<le> 10" "1 \<le> c" "c \<le> 10" "1 \<le> d" "d \<le> 10"
    using assms by (simp_all add: in_range_def p_def so_def c_def d_def)
  define t1 where "t1 = fmul (float_lit (45 / 100)) (float_of_int (privacy_level s))"
  define t2 where "t2 = fmul (float_lit (40 / 100)) (float_of_int (soundness_focus s))"
  define t3 where "t3 = fmul (float_lit (10 / 100)) (float_of_int (performance_cost s))"
  define t4 where "t4 = fmul (float_lit (5 / 100)) (float_of_int (dev_complexity s))"
  define x where "x = fsub (fadd t1 t2) (fadd t3 t4)"
  have e1: "\<bar>t1 - 45 / 100 * p\<bar> \<le> 13 / 2 ^ 49"
    unfolding t1_def p_def using assms by (intro term_err) (simp_all add: in_range_def)
  have e2: "\<bar>t2 - 40 / 100 * so\<bar> \<le> 13 / 2 ^ 49"
    unfolding t2_def so_def using assms by (intro term_err) (simp_all add: in_range_def)
  have e3: "\<bar>t3 - 10 / 100 * c\<bar> \<le> 13 / 2 ^ 49"
    unfolding t3_def c_def using assms by (intro term_err) (simp_all add: in_range_def)
  have e4: "\<bar>t4 - 5 / 100 * d\<bar> \<le> 13 / 2 ^ 49"
    unfolding t4_def d_def using assms by (intro term_err) (simp_all add: in_range_def)
  have b: "\<bar>fadd t1 t2 - (45 / 100 * p + 40 / 100 * so)\<bar> \<le> 27 / 2 ^ 49"
    using e1 e2 r by (intro sum_err) auto
  have pn: "\<bar>fadd t3 t4 - (10 / 100 * c + 5 / 100 * d)\<bar> \<le> 27 / 2 ^ 49"
    using e3 e4 r by (intro sum_err) auto
  have xe: "\<bar>x - (45 / 100 * p + 40 / 100 * so - (10 / 100 * c + 5 / 100 * d))\<bar> \<le> 55 / 2 ^ 49"
    unfolding x_def using b pn r by (intro diff_err) auto
  have K: "(of_int (hundredths s) :: rat) = (45 / 100 * p + 40 / 100 * so - (10 / 100 * c + 5 / 100 * d)) * 100"
    by (simp add: hundredths_def p_def so_def c_def d_def algebra_simps)
  have "\<bar>x * 100 - of_int (hundredths s)\<bar> < 1 / 2"
    unfolding K using xe by (simp add: abs_if split: if_splits)
  then have "round_half_even (x * 100) = hundredths s" by (rule round_half_even_near)
  then show ?thesis
    by (simp add: raw_score_def x_def t1_def t2_def t3_def t4_def)
qed

section \<open>The score\<close>

subsection \<open>Evaluating floats\<close>

lemma floor_rat_numeral_div:
  "\<lfloor>(numeral a :: rat) / numeral b\<rfloor> = numeral a div numeral b"
  by (metis floor_divide_of_int_eq of_int_numeral)

lemma char_of_digits:
  "char_of (48::int) = CHR ''0''" "char_of (49::int) = CHR ''1''" "char_of (50::int) = CHR ''2''"
  "char_of (51::int) = CHR ''3''" "char_of (52::int) = CHR ''4''" "char_of (53::int) = CHR ''5''"
  "char_of (54::int) = CHR ''6''" "char_of (55::int) = CHR ''7''" "char_of (56::int) = CHR ''8''"
  "char_of (57::int) = CHR ''9''"
  by code_simp+

lemmas float_eval = fl_def fmul_def fadd_def fsub_def float_lit_def float_of_int_def py_round_def
  round_half_even_def ilog.simps Let_def power_int_minus floor_rat_numeral_div

lemmas repr_eval = float_repr_pos_def repr_candidate_def strip_zeros_def exp_str_def
  dec_digits.simps digit_char_def char_of_digits upt_rec

lemma aztec_fields:
  "key aztec = ''aztec''" "privacy_level aztec = 9" "soundness_focus aztec = 8"
  "performance_cost aztec = 7" "dev_complexity aztec = 8" "ecosystem_maturity aztec = 7"
  by (simp_all add: aztec_def)

lemma zama_fields:
  "key zama = ''zama''" "privacy_level zama = 8" "soundness_focus zama = 9"
  "performance_cost zama = 9" "dev_complexity zama = 9" "ecosystem_maturity zama = 5"
  by (simp_all add: zama_def)

lemma soundness_fields:
  "key soundness = ''soundness''" "privacy_level soundness = 6" "soundness_focus soundness = 10"
  "performance_cost soundness = 6" "dev_complexity soundness = 7" "ecosystem_maturity soundness = 8"
  by (simp_all add: soundness_def)

lemma float_lit_values:
  "float_lit (615 / 100) = 3462142213541069 / 562949953421312"
  "float_lit (585 / 100) = 3293257227514675 / 562949953421312"
  "float_lit (575 / 100) = 23 / 4"
  "float_lit (625 / 100) = 25 / 4"
  by (simp_all add: float_eval)

lemma score_aztec: "score_stack aztec = PFloat (float_lit (615 / 100))"
  unfolding score_stack_def aztec_fields Let_def by (simp add: float_eval)

lemma score_zama: "score_stack zama = PFloat (float_lit (585 / 100))"
  unfolding score_stack_def zama_fields Let_def by (simp add: float_eval)

lemma score_soundness: "score_stack soundness = PFloat (float_lit (575 / 100))"
  unfolding score_stack_def soundness_fields Let_def by (simp add: float_eval)

lemma repr_615: "float_repr (PFloat (float_lit (615 / 100))) = ''6.15''"
  unfolding float_lit_values by (simp add: float_eval repr_eval)

lemma repr_585: "float_repr (PFloat (float_lit (585 / 100))) = ''5.85''"
  unfolding float_lit_values by (simp add: float_eval repr_eval)

lemma repr_575: "float_repr (PFloat (float_lit (575 / 100))) = ''5.75''"
  unfolding float_lit_values by (simp add: float_eval repr_eval)

lemma score_ignores_maturity: "score_stack (s\<lparr>ecosystem_maturity := m\<rparr>) = score_stack s"
  by (simp add: score_stack_def)

subsection \<open>No negative zero in range\<close>

lemma score_stack_raw:
  "score_stack s =
     py_round (raw_score (privacy_level s) (soundness_focus s) (performance_cost s) (dev_complexity s)) 2"
  by (simp add: score_stack_def raw_score_def Let_def)

lemma raw_score_zero_cases:
  "0 \<le> raw_score 1 1 8 1" "0 \<le> raw_score 1 1 7 3" "0 \<le> raw_score 1 1 6 5"
  "0 \<le> raw_score 1 1 5 7" "0 \<le> raw_score 1 1 4 9" "0 \<le> raw_score 1 2 10 5"
  "0 \<le> raw_score 1 2 9 7" "0 \<le> raw_score 1 2 8 9" "0 \<le> raw_score 2 1 10 6"
  "0 \<le> raw_score 2 1 9 8" "0 \<le> raw_score 2 1 8 10"
  unfolding raw_score_def by (simp_all add: float_eval)

lemma raw_score_nonneg_at_zero:
  fixes p so c d :: int
  assumes r: "1 \<le> p" "p \<le> 10" "1 \<le> so" "so \<le> 10" "1 \<le> c" "c \<le> 10" "1 \<le> d" "d \<le> 10"
    and z: "45 * p + 40 * so - (10 * c + 5 * d) = 0"
  shows "0 \<le> raw_score p so c d"
proof -
  have d: "d = 9 * p + 8 * so - 2 * c" using z by linarith
  have "p \<le> 2" using d r by linarith
  then have p: "p = 1 \<or> p = 2" using r(1) by linarith
  have "so \<le> 2" using d r by linarith
  then have so: "so = 1 \<or> so = 2" using r(3) by linarith
  have n: "\<not> (p = 2 \<and> so = 2)" using d r by linarith
  consider (a) "p = 1" "so = 1" | (b) "p = 1" "so = 2" | (c) "p = 2" "so = 1"
    using p so n by blast
  then show ?thesis
  proof cases
    case a
    have "4 \<le> c" "c \<le> 8" using d r a by linarith+
    then have "c = 4 \<or> c = 5 \<or> c = 6 \<or> c = 7 \<or> c = 8" by linarith
    then show ?thesis using raw_score_zero_cases by (elim disjE) (simp_all add: d a)
  next
    case b
    have "8 \<le> c" using d r b by linarith
    then have "c = 8 \<or> c = 9 \<or> c = 10" using r(6) by linarith
    then show ?thesis using raw_score_zero_cases by (elim disjE) (simp_all add: d b)
  next
    case c
    have "8 \<le> c" using d r c by linarith
    then have "c = 8 \<or> c = 9 \<or> c = 10" using r(6) by linarith
    then show ?thesis using raw_score_zero_cases by (elim disjE) (simp_all add: d c)
  qed
qed

lemma score_stack_exact:
  assumes "in_range s"
  shows "score_stack s = PFloat (fl (of_int (hundredths s) / 100))"
proof -
  define x where
    "x = raw_score (privacy_level s) (soundness_focus s) (performance_cost s) (dev_complexity s)"
  have sc: "score_stack s = py_round x 2" by (simp add: score_stack_raw x_def)
  have k: "round_half_even (x * 100) = hundredths s"
    using raw_score_rounds[OF assms] by (simp add: x_def)
  have "\<not> x < 0" if "hundredths s = 0"
    using raw_score_nonneg_at_zero[of "privacy_level s" "soundness_focus s" "performance_cost s"
        "dev_complexity s"] assms that
    by (simp add: in_range_def hundredths_def x_def)
  then show ?thesis
    unfolding sc py_round_def using k by (auto simp: Let_def)
qed

subsection \<open>The formula\<close>

text \<open>
  C1, as the code has it.  For every stack whose five numeric fields are integers from
  1 to 10, \<open>score_stack\<close> returns the float written as the specification's score,
  the exact value of
  \<open>0.45 * privacy_level + 0.40 * soundness_focus - (0.10 * performance_cost + 0.05 * dev_complexity)\<close>
  rounded to two decimals; it is never the negative zero.  For the three catalog entries
  the results are the floats written 6.15 for aztec, 5.85 for zama and 5.75 for
  soundness, and they print as such.  Changing \<open>ecosystem_maturity\<close> never changes
  the result.
\<close>

theorem score_stack_formula:
  "(in_range s \<longrightarrow> score_stack s = PFloat (float_lit (spec_score s)))
   \<and> score_stack aztec = PFloat (float_lit (615 / 100))
   \<and> score_stack zama = PFloat (float_lit (585 / 100))
   \<and> score_stack soundness = PFloat (float_lit (575 / 100))
   \<and> map (\<lambda>s. float_repr (score_stack s)) [aztec, zama, soundness] = [''6.15'', ''5.85'', ''5.75'']
   \<and> score_stack (s\<lparr>ecosystem_maturity := m\<rparr>) = score_stack s"
proof -
  have "in_range s \<longrightarrow> score_stack s = PFloat (float_lit (spec_score s))"
    using score_stack_exact[of s] by (simp add: spec_score_exact float_lit_def)
  moreover have "map (\<lambda>s. float_repr (score_stack s)) [aztec, zama, soundness]
      = [''6.15'', ''5.85'', ''5.75'']"
    by (simp only: list.map score_aztec score_zama score_soundness repr_615 repr_585 repr_575)
  ultimately show ?thesis
    using score_aztec score_zama score_soundness score_ignores_maturity by blast
qed

text \<open>
  The formula at the aztec entry: its fields are in range, the specification's score is
  6.15, and the code returns the float written so.
\<close>

theorem score_stack_formula_witness:
  "in_range aztec \<and> spec_score aztec = 615 / 100
   \<and> score_stack aztec = PFloat (float_lit (spec_score aztec))"
proof -
  have r: "in_range aztec" by (simp add: in_range_def aztec_def)
  have sp: "spec_score aztec = 615 / 100"
    by (simp add: spec_score_exact hundredths_def aztec_def)
  from score_stack_formula[of aztec] r
  have "score_stack aztec = PFloat (float_lit (spec_score aztec))" by blast
  with r sp show ?thesis by blast
qed

text \<open>
  C1 as stated gives 6.25 for zama.  The code returns the float written 5.85, which is
  a different float.
\<close>

theorem score_zama_counterexample:
  "score_stack zama = PFloat (float_lit (585 / 100))
   \<and> score_stack zama \<noteq> PFloat (float_lit (625 / 100))"
  unfolding score_zama float_lit_values by simp

section \<open>Rows\<close>

lemma build_rows_loop_map:
  "build_rows_loop selected inc rows =
     rows @ map (\<lambda>s. if inc then dict_set ''composite_score'' (VFloat (score_stack s)) (to_dict s)
                     else to_dict s) selected"
  by (induction selected arbitrary: rows) (simp_all add: Let_def)

lemma dict_set_fresh: "k \<notin> fst ` set d \<Longrightarrow> dict_set k v d = d @ [(k, v)]"
  by (induction d) auto

lemma to_dict_keys:
  "map fst (to_dict s) =
     [''key'', ''name'', ''family'', ''description'', ''privacy_level'', ''soundness_focus'',
      ''performance_cost'', ''dev_complexity'', ''ecosystem_maturity'']"
  by (simp add: to_dict_def)

lemma to_dict_length: "length (to_dict s) = 9"
  by (simp add: to_dict_def)

lemma dict_set_to_dict:
  "dict_set ''composite_score'' v (to_dict s) = to_dict s @ [(''composite_score'', v)]"
  by (simp add: to_dict_def)

lemma build_rows_map:
  "build_rows selected inc =
     map (\<lambda>s. if inc then to_dict s @ [(''composite_score'', VFloat (score_stack s))]
              else to_dict s) selected"
  by (simp add: build_rows_def build_rows_loop_map dict_set_to_dict)

text \<open>
  C2, as the code has it.  \<open>build_rows\<close> produces one row per input stack, in input
  order.  With \<open>include_score\<close> false each row is the dictionary of the stack's nine
  dataclass fields in declaration order: the eight fields of \<open>FIELDS_ORDER\<close>, in that
  order, and \<open>description\<close> between \<open>family\<close> and \<open>privacy_level\<close>; it has no
  \<open>composite_score\<close> key.  With \<open>include_score\<close> true each row has one more entry,
  last, \<open>composite_score\<close>, whose value is \<open>score_stack\<close> of that stack.
\<close>

theorem build_rows_rows:
  "build_rows selected inc =
     map (\<lambda>s. if inc then to_dict s @ [(''composite_score'', VFloat (score_stack s))]
              else to_dict s) selected
   \<and> map fst (to_dict s) = take 3 FIELDS_ORDER @ [''description''] @ drop 3 FIELDS_ORDER
   \<and> length (to_dict s) = 9
   \<and> distinct (map fst (to_dict s))
   \<and> ''composite_score'' \<notin> set (map fst (to_dict s))"
  by (simp add: build_rows_map to_dict_keys to_dict_length FIELDS_ORDER_def)

text \<open>
  C2 as stated lets a row hold exactly the eight fields of \<open>FIELDS_ORDER\<close>.  The row
  built for the aztec entry has nine keys, \<open>description\<close> among them.
\<close>

theorem build_rows_fields_counterexample:
  "map (map fst) (build_rows [aztec] False) =
     [[''key'', ''name'', ''family'', ''description'', ''privacy_level'', ''soundness_focus'',
       ''performance_cost'', ''dev_complexity'', ''ecosystem_maturity'']]
   \<and> map (map fst) (build_rows [aztec] False) \<noteq> [FIELDS_ORDER]"
  by (simp add: build_rows_map to_dict_keys FIELDS_ORDER_def)

section \<open>Sorting\<close>

subsection \<open>The order on keys\<close>

lemma py_lt_num: "\<not> is_str a \<Longrightarrow> \<not> is_str b \<Longrightarrow> py_lt a b = num_lt a b"
  by (cases a; cases b) auto

lemma py_lt_asym: "py_lt a b \<Longrightarrow> \<not> py_lt b a"
  by (cases a; cases b) (auto simp: num_lt_def)

text \<open>Away from NaN, "not less than" is transitive: \<open><\<close> is a strict weak order.\<close>

lemma py_lt_neg_trans:
  assumes "is_str a = is_str b" "is_str b = is_str c" "\<not> is_nan b"
    and "\<not> py_lt b a" "\<not> py_lt c b"
  shows "\<not> py_lt c a"
proof (cases "is_str b")
  case True
  then obtain sa sb sc where "a = VStr sa" "b = VStr sb" "c = VStr sc"
    using assms(1,2) by (cases a; cases b; cases c) auto
  then show ?thesis using assms(4,5) by auto
next
  case False
  then have "py_lt b a = num_lt b a" "py_lt c b = num_lt c b" "py_lt c a = num_lt c a"
    using assms(1,2) by (simp_all add: py_lt_num)
  then show ?thesis using assms(3,4,5) by (auto simp: num_lt_def)
qed

lemma comparable_same_kind:
  "comparable ks \<Longrightarrow> a \<in> set ks \<Longrightarrow> b \<in> set ks \<Longrightarrow> is_str a = is_str b"
  by (auto simp: comparable_def list_all_iff)

lemma comparable_Cons: "comparable (k # ks) \<Longrightarrow> comparable ks"
  by (auto simp: comparable_def)

lemma comparable_rev: "comparable (rev ks) = comparable ks"
  by (simp add: comparable_def list_all_iff)

lemma no_nan_iff: "(\<not> list_ex is_nan (map f xs)) = (\<forall>u \<in> set xs. \<not> is_nan (f u))"
  by (simp add: list_ex_iff)

subsection \<open>Insertion\<close>

lemma mset_insort_lt: "mset (insort_lt f x ys) = add_mset x (mset ys)"
  by (induction ys) auto

lemma set_insort_lt: "set (insort_lt f x ys) = insert x (set ys)"
  by (induction ys) auto

lemma mset_stable_sort: "mset (stable_sort f xs) = mset xs"
  by (induction xs) (auto simp: mset_insort_lt)

lemma set_stable_sort: "set (stable_sort f xs) = set xs"
  by (induction xs) (auto simp: set_insort_lt)

lemma sorted_insort_lt:
  assumes "sorted_wrt (\<lambda>u v. \<not> py_lt (f v) (f u)) ys"
    and "\<forall>u \<in> insert x (set ys). is_str (f u) = b"
    and "\<forall>u \<in> set ys. \<not> is_nan (f u)"
  shows "sorted_wrt (\<lambda>u v. \<not> py_lt (f v) (f u)) (insort_lt f x ys)"
  using assms
proof (induction ys)
  case Nil
  then show ?case by simp
next
  case (Cons y ys)
  show ?case
  proof (cases "py_lt (f y) (f x)")
    case True
    have "sorted_wrt (\<lambda>u v. \<not> py_lt (f v) (f u)) (insort_lt f x ys)"
      using Cons.IH Cons.prems by simp
    moreover have "\<forall>z \<in> set (insort_lt f x ys). \<not> py_lt (f z) (f y)"
      using Cons.prems(1) True py_lt_asym by (auto simp: set_insort_lt)
    ultimately show ?thesis using True by simp
  next
    case False
    have "\<not> py_lt (f z) (f x)" if "z \<in> set ys" for z
    proof -
      have "\<not> py_lt (f z) (f y)" using Cons.prems(1) that by simp
      moreover have "is_str (f x) = is_str (f y)" "is_str (f y) = is_str (f z)"
        using Cons.prems(2) that by simp_all
      moreover have "\<not> is_nan (f y)" using Cons.prems(3) by simp
      ultimately show ?thesis using False py_lt_neg_trans by blast
    qed
    then show ?thesis using False Cons.prems(1) by auto
  qed
qed

lemma sorted_stable_sort:
  assumes "comparable (map f xs)" and "\<forall>u \<in> set xs. \<not> is_nan (f u)"
  shows "sorted_wrt (\<lambda>u v. \<not> py_lt (f v) (f u)) (stable_sort f xs)"
  using assms
proof (induction xs)
  case Nil
  then show ?case by simp
next
  case (Cons x xs)
  have "sorted_wrt (\<lambda>u v. \<not> py_lt (f v) (f u)) (stable_sort f xs)"
    using Cons comparable_Cons by auto
  moreover have "\<forall>u \<in> insert x (set (stable_sort f xs)). is_str (f u) = is_str (f x)"
    using comparable_same_kind[OF Cons.prems(1)] by (auto simp: set_stable_sort)
  moreover have "\<forall>u \<in> set (stable_sort f xs). \<not> is_nan (f u)"
    using Cons.prems(2) by (simp add: set_stable_sort)
  ultimately show ?case using sorted_insort_lt[of f "stable_sort f xs" x "is_str (f x)"] by simp
qed

lemma filter_insort_lt:
  assumes "\<forall>u \<in> insert x (set ys). is_str (f u) = is_str k" and "\<not> is_nan k"
  shows "filter (\<lambda>r. key_eq (f r) k) (insort_lt f x ys) =
         (if key_eq (f x) k then x # filter (\<lambda>r. key_eq (f r) k) ys
          else filter (\<lambda>r. key_eq (f r) k) ys)"
  using assms
proof (induction ys)
  case Nil
  then show ?case by simp
next
  case (Cons y ys)
  have ih: "filter (\<lambda>r. key_eq (f r) k) (insort_lt f x ys) =
         (if key_eq (f x) k then x # filter (\<lambda>r. key_eq (f r) k) ys
          else filter (\<lambda>r. key_eq (f r) k) ys)"
    using Cons by auto
  show ?case
  proof (cases "py_lt (f y) (f x)")
    case True
    have "\<not> key_eq (f y) k" if "key_eq (f x) k"
    proof
      assume "key_eq (f y) k"
      then have "\<not> py_lt (f y) k" by (simp add: key_eq_def)
      moreover have "\<not> py_lt k (f x)" using that by (simp add: key_eq_def)
      moreover have "is_str (f x) = is_str k" "is_str k = is_str (f y)"
        using Cons.prems by auto
      ultimately have "\<not> py_lt (f y) (f x)" using py_lt_neg_trans Cons.prems(2) by blast
      then show False using True by simp
    qed
    then show ?thesis using True ih by auto
  next
    case False
    then show ?thesis by simp
  qed
qed

lemma stable_sort_stable:
  assumes "comparable (map f xs)" "r0 \<in> set xs" "\<not> is_nan (f r0)"
  shows "filter (\<lambda>r. key_eq (f r) (f r0)) (stable_sort f xs) = filter (\<lambda>r. key_eq (f r) (f r0)) xs"
proof -
  have "\<forall>u \<in> set ys. is_str (f u) = is_str (f r0) \<Longrightarrow>
      filter (\<lambda>r. key_eq (f r) (f r0)) (stable_sort f ys) = filter (\<lambda>r. key_eq (f r) (f r0)) ys" for ys
  proof (induction ys)
    case Nil
    then show ?case by simp
  next
    case (Cons y ys)
    have "\<forall>u \<in> insert y (set (stable_sort f ys)). is_str (f u) = is_str (f r0)"
      using Cons.prems by (auto simp: set_stable_sort)
    then show ?case using Cons assms(3) by (simp add: filter_insort_lt)
  qed
  moreover have "\<forall>u \<in> set xs. is_str (f u) = is_str (f r0)"
    using comparable_same_kind[OF assms(1)] assms(2) by auto
  ultimately show ?thesis by blast
qed

subsection \<open>\<^verbatim>\<open>sorted\<close>\<close>

lemma py_sorted_ok:
  assumes "length xs < 2 \<or> (comparable (map f xs) \<and> \<not> list_ex is_nan (map f xs))"
  shows "\<exists>out. py_sorted un xs f reverse = Inr out \<and> mset out = mset xs \<and> in_order f reverse out
           \<and> (\<forall>r0 \<in> set xs. filter (\<lambda>r. key_eq (f r) (f r0)) out = filter (\<lambda>r. key_eq (f r) (f r0)) xs)"
proof (cases "length xs < 2")
  case False
  then have c: "comparable (map f xs)" and n: "\<forall>u \<in> set xs. \<not> is_nan (f u)"
    using assms by (simp_all add: list_ex_iff)
  define out where "out = (if reverse then rev (stable_sort f (rev xs)) else stable_sort f xs)"
  have cr: "comparable (map f (rev xs))" using c by (simp add: rev_map[symmetric] comparable_rev)
  have nr: "\<forall>u \<in> set (rev xs). \<not> is_nan (f u)" using n by simp
  have "py_sorted un xs f reverse = Inr out"
    using c n by (simp add: py_sorted_def out_def list_ex_iff)
  moreover have "mset out = mset xs" by (simp add: out_def mset_stable_sort)
  moreover have "in_order f reverse out"
    using sorted_stable_sort[OF c n] sorted_stable_sort[OF cr nr]
    by (simp add: in_order_def out_def sorted_wrt_rev)
  moreover have "filter (\<lambda>r. key_eq (f r) (f r0)) out = filter (\<lambda>r. key_eq (f r) (f r0)) xs"
    if "r0 \<in> set xs" for r0
    using stable_sort_stable[OF c that] stable_sort_stable[OF cr, of r0] that n
    by (simp add: out_def rev_filter[symmetric])
  ultimately show ?thesis by blast
next
  case True
  then consider "xs = []" | x where "xs = [x]"
    by (cases xs; cases "tl xs") auto
  then show ?thesis
    by cases (auto simp: py_sorted_def in_order_def)
qed

subsection \<open>\<^verbatim>\<open>sort_rows\<close>\<close>

text \<open>
  C5, as the code has it.  Let the sort field be present and not the empty string, and
  let the key of a row be its value at that field, or the integer 0 when the row has no
  such field.  When the rows are fewer than two, or their keys are all strings or all
  numbers none of which is NaN, \<open>sort_rows\<close> returns a rearrangement of the rows that
  is in ascending order of the keys when \<open>descending\<close> is false and in descending order
  when it is true, and that keeps rows with equal keys in their original relative order,
  in both directions.  When two or more rows have keys that mix strings and numbers,
  \<open>sort_rows\<close> raises \<^verbatim>\<open>TypeError\<close>.  When two or more rows have numbers as keys and
  one of them is NaN, \<open>sort_rows\<close> raises nothing and returns whatever arrangement
  \<^verbatim>\<open>sorted\<close> produces, of which no order is claimed.  With the empty string as sort
  field it returns the rows unchanged.
\<close>

theorem sort_rows_stable:
  "(f \<noteq> [] \<and> (length rows < 2
        \<or> (comparable (map (sort_key_of f) rows) \<and> \<not> list_ex is_nan (map (sort_key_of f) rows))) \<longrightarrow>
      (\<exists>out. sort_rows ns rows (Some f) desc = Inr out
         \<and> mset out = mset rows
         \<and> in_order (sort_key_of f) desc out
         \<and> (\<forall>r0 \<in> set rows.
               filter (\<lambda>r. key_eq (sort_key_of f r) (sort_key_of f r0)) out =
               filter (\<lambda>r. key_eq (sort_key_of f r) (sort_key_of f r0)) rows)))
   \<and> (f \<noteq> [] \<and> 2 \<le> length rows \<and> \<not> comparable (map (sort_key_of f) rows) \<longrightarrow>
        sort_rows ns rows (Some f) desc = Inl TypeError)
   \<and> (f \<noteq> [] \<and> 2 \<le> length rows \<and> comparable (map (sort_key_of f) rows)
        \<and> list_ex is_nan (map (sort_key_of f) rows) \<longrightarrow>
        sort_rows ns rows (Some f) desc = Inr (ns rows f desc))
   \<and> (map_of r f = None \<longrightarrow> sort_key_of f r = VInt 0)
   \<and> (map_of r f = Some v \<longrightarrow> sort_key_of f r = v)
   \<and> sort_rows ns rows (Some []) desc = Inr rows"
proof -
  have k: "(\<lambda>r. dict_get r f (VInt 0)) = sort_key_of f"
    by (simp add: sort_key_of_def fun_eq_iff)
  have s: "sort_rows ns rows (Some f) desc = py_sorted (ns rows f desc) rows (sort_key_of f) desc"
    if "f \<noteq> []"
    using that by (simp add: sort_rows_def k)
  have "\<exists>out. sort_rows ns rows (Some f) desc = Inr out
         \<and> mset out = mset rows
         \<and> in_order (sort_key_of f) desc out
         \<and> (\<forall>r0 \<in> set rows.
               filter (\<lambda>r. key_eq (sort_key_of f r) (sort_key_of f r0)) out =
               filter (\<lambda>r. key_eq (sort_key_of f r) (sort_key_of f r0)) rows)"
    if "f \<noteq> []" "length rows < 2
        \<or> (comparable (map (sort_key_of f) rows) \<and> \<not> list_ex is_nan (map (sort_key_of f) rows))"
    unfolding s[OF that(1)] using that(2) by (rule py_sorted_ok)
  moreover have "sort_rows ns rows (Some f) desc = Inl TypeError"
    if "f \<noteq> []" "2 \<le> length rows" "\<not> comparable (map (sort_key_of f) rows)"
    unfolding s[OF that(1)] using that(2,3) by (simp add: py_sorted_def)
  moreover have "sort_rows ns rows (Some f) desc = Inr (ns rows f desc)"
    if "f \<noteq> []" "2 \<le> length rows" "comparable (map (sort_key_of f) rows)"
      "list_ex is_nan (map (sort_key_of f) rows)"
    unfolding s[OF that(1)] using that(2,3,4) by (simp add: py_sorted_def)
  moreover have "map_of r f = None \<longrightarrow> sort_key_of f r = VInt 0"
    by (simp add: sort_key_of_def dict_get_def)
  moreover have "map_of r f = Some v \<longrightarrow> sort_key_of f r = v"
    by (simp add: sort_key_of_def dict_get_def)
  moreover have "sort_rows ns rows (Some []) desc = Inr rows"
    by (simp add: sort_rows_def)
  ultimately show ?thesis by blast
qed

text \<open>
  Five rows sorted by \<open>n\<close>, whatever \<^verbatim>\<open>sorted\<close> does with NaN.  The fourth has no
  such field and sorts as 0, the first and the third share the key 2 and keep their
  order, ascending and descending; the float infinity comes after every integer.  Two
  rows of which the first has NaN as its key come back as \<^verbatim>\<open>sorted\<close> arranges them.
\<close>

theorem sort_rows_stable_witness:
  "\<forall>ns.
     sort_rows ns [[(''n'', VInt 2), (''t'', VStr ''a'')], [(''n'', VInt 1)],
              [(''n'', VInt 2), (''t'', VStr ''b'')], [], [(''n'', VFloat PosInf)]]
         (Some ''n'') False =
     Inr [[], [(''n'', VInt 1)], [(''n'', VInt 2), (''t'', VStr ''a'')],
          [(''n'', VInt 2), (''t'', VStr ''b'')], [(''n'', VFloat PosInf)]]
   \<and> in_order (sort_key_of ''n'') False
        [[], [(''n'', VInt 1)], [(''n'', VInt 2), (''t'', VStr ''a'')],
         [(''n'', VInt 2), (''t'', VStr ''b'')], [(''n'', VFloat PosInf)]]
   \<and> sort_rows ns [[(''n'', VInt 2), (''t'', VStr ''a'')], [(''n'', VInt 1)],
              [(''n'', VInt 2), (''t'', VStr ''b'')], [], [(''n'', VFloat PosInf)]]
         (Some ''n'') True =
     Inr [[(''n'', VFloat PosInf)], [(''n'', VInt 2), (''t'', VStr ''a'')],
          [(''n'', VInt 2), (''t'', VStr ''b'')], [(''n'', VInt 1)], []]
   \<and> in_order (sort_key_of ''n'') True
        [[(''n'', VFloat PosInf)], [(''n'', VInt 2), (''t'', VStr ''a'')],
         [(''n'', VInt 2), (''t'', VStr ''b'')], [(''n'', VInt 1)], []]
   \<and> sort_rows ns [[(''n'', VFloat NaN)], [(''n'', VInt 1)]] (Some ''n'') False
       = Inr (ns [[(''n'', VFloat NaN)], [(''n'', VInt 1)]] ''n'' False)"
proof
  fix ns :: nan_order
  let ?nan = "[[(''n'', VFloat NaN)], [(''n'', VInt 1)]]"
  have nc: "comparable (map (sort_key_of ''n'') ?nan)" by code_simp
  have ne: "list_ex is_nan (map (sort_key_of ''n'') ?nan)" by code_simp
  have nl: "2 \<le> length ?nan" by simp
  let ?rows = "[[(''n'', VInt 2), (''t'', VStr ''a'')], [(''n'', VInt 1)],
                [(''n'', VInt 2), (''t'', VStr ''b'')], [], [(''n'', VFloat PosInf)]]"
  let ?asc = "[[], [(''n'', VInt 1)], [(''n'', VInt 2), (''t'', VStr ''a'')],
               [(''n'', VInt 2), (''t'', VStr ''b'')], [(''n'', VFloat PosInf)]]"
  let ?desc = "[[(''n'', VFloat PosInf)], [(''n'', VInt 2), (''t'', VStr ''a'')],
                [(''n'', VInt 2), (''t'', VStr ''b'')], [(''n'', VInt 1)], []]"
  have n: "''n'' \<noteq> []" by simp
  have c: "comparable (map (sort_key_of ''n'') ?rows)" by code_simp
  have nn: "\<not> list_ex is_nan (map (sort_key_of ''n'') ?rows)" by code_simp
  have asc: "sort_rows ns ?rows (Some ''n'') False = Inr ?asc"
    by code_simp
  have desc: "sort_rows ns ?rows (Some ''n'') True = Inr ?desc"
    by code_simp
  from sort_rows_stable[of "''n''" ?rows ns False] n c nn asc
  have "in_order (sort_key_of ''n'') False ?asc"
    by auto
  moreover from sort_rows_stable[of "''n''" ?rows ns True] n c nn desc
  have "in_order (sort_key_of ''n'') True ?desc"
    by auto
  moreover from sort_rows_stable[of "''n''" ?nan ns False] n nc ne nl
  have "sort_rows ns ?nan (Some ''n'') False = Inr (ns ?nan ''n'' False)"
    by blast
  ultimately show "sort_rows ns ?rows (Some ''n'') False = Inr ?asc
      \<and> in_order (sort_key_of ''n'') False ?asc
      \<and> sort_rows ns ?rows (Some ''n'') True = Inr ?desc
      \<and> in_order (sort_key_of ''n'') True ?desc
      \<and> sort_rows ns ?nan (Some ''n'') False = Inr (ns ?nan ''n'' False)"
    using asc desc by blast
qed

text \<open>
  C5 as stated holds for every list of rows and every present sort field.  Two rows,
  one with a string under \<open>name\<close> and one without the field, cannot be sorted by
  \<open>name\<close>: the missing field counts as the number 0, and a string against a number
  raises \<^verbatim>\<open>TypeError\<close>.  And with the empty string as sort field, rows that hold it as
  a key come back in their original order, 2 before 1.
\<close>

theorem sort_rows_mixed_counterexample:
  "\<forall>ns.
     sort_rows ns [[(''name'', VStr ''a'')], []] (Some ''name'') False = Inl TypeError
   \<and> sort_rows ns [[([], VInt 2)], [([], VInt 1)]] (Some []) False
       = Inr [[([], VInt 2)], [([], VInt 1)]]"
proof
  fix ns :: nan_order
  show "sort_rows ns [[(''name'', VStr ''a'')], []] (Some ''name'') False = Inl TypeError
   \<and> sort_rows ns [[([], VInt 2)], [([], VInt 1)]] (Some []) False
       = Inr [[([], VInt 2)], [([], VInt 1)]]"
    by code_simp
qed

text \<open>
  With a NaN among the keys the rows need not come back in order.  On the keys
  \<open>2.0, nan, 1.0\<close> no element is less than the one before it, so a sort that looks
  for an ascending run, as CPython's does, finds the whole list to be one and leaves it
  as it is; such a result is not in ascending order, 2 standing before 1.
\<close>

lemma sort_rows_nan_unordered:
  "sort_rows (\<lambda>rows f d. rows)
       [[(''n'', VFloat (PFloat 2))], [(''n'', VFloat NaN)], [(''n'', VFloat (PFloat 1))]]
       (Some ''n'') False
     = Inr [[(''n'', VFloat (PFloat 2))], [(''n'', VFloat NaN)], [(''n'', VFloat (PFloat 1))]]
   \<and> \<not> in_order (sort_key_of ''n'') False
        [[(''n'', VFloat (PFloat 2))], [(''n'', VFloat NaN)], [(''n'', VFloat (PFloat 1))]]
   \<and> comparable (map (sort_key_of ''n'')
        [[(''n'', VFloat (PFloat 2))], [(''n'', VFloat NaN)], [(''n'', VFloat (PFloat 1))]])"
  by code_simp

subsection \<open>No sort field\<close>

text \<open>
  C4.  When no sort field is given, \<open>sort_rows\<close> returns the list of rows it received,
  the same elements in the same order, whatever the rows and whatever \<open>descending\<close> is;
  it raises nothing.
\<close>

theorem sort_rows_absent_identity: "sort_rows ns rows None desc = Inr rows"
  by (simp add: sort_rows_def)

section \<open>CSV cells\<close>

lemma replace_char_Cons:
  "replace_char old new (c # s) = (if c = old then new else [c]) @ replace_char old new s"
  by (simp add: replace_char_def)

lemma replace_char_Nil: "replace_char old new [] = []"
  by (simp add: replace_char_def)

lemma undouble_doubled:
  "undouble (replace_char (CHR 0x22) [CHR 0x22, CHR 0x22] s) = s"
proof (induction s)
  case Nil
  then show ?case by (simp add: replace_char_Nil)
next
  case (Cons c s)
  show ?case
  proof (cases "c = CHR 0x22")
    case True
    then show ?thesis using Cons by (simp add: replace_char_Cons)
  next
    case False
    then show ?thesis using Cons
      by (cases "replace_char (CHR 0x22) [CHR 0x22, CHR 0x22] s"; cases s)
         (auto simp: replace_char_Cons replace_char_Nil split: if_splits)
  qed
qed

lemma esc_plain:
  assumes "CHR '','' \<notin> set (py_str v)" "CHR 0x22 \<notin> set (py_str v)" "NL \<notin> set (py_str v)"
  shows "esc v = py_str v"
  using assms by (simp add: esc_def Let_def)

lemma esc_quoted:
  assumes "CHR '','' \<in> set (py_str v) \<or> CHR 0x22 \<in> set (py_str v) \<or> NL \<in> set (py_str v)"
  shows "esc v = [CHR 0x22] @ replace_char (CHR 0x22) [CHR 0x22, CHR 0x22] (py_str v) @ [CHR 0x22]"
  using assms by (auto simp: esc_def Let_def)

lemma unquote_esc: "unquote (esc v) = py_str v"
proof (cases "CHR '','' \<in> set (py_str v) \<or> CHR 0x22 \<in> set (py_str v) \<or> NL \<in> set (py_str v)")
  case True
  then show ?thesis
    by (simp add: esc_quoted unquote_def butlast_append undouble_doubled)
next
  case False
  then have e: "esc v = py_str v" by (simp add: esc_plain)
  have "hd (py_str v) \<noteq> CHR 0x22" if "py_str v \<noteq> []"
    using False that by (cases "py_str v") auto
  then show ?thesis unfolding e by (cases "py_str v") (auto simp: unquote_def)
qed

lemma esc_example:
  "esc (VStr (''He said '' @ [CHR 0x22] @ ''hi'' @ [CHR 0x22] @ '', ok'')) =
     [CHR 0x22] @ ''He said '' @ [CHR 0x22, CHR 0x22] @ ''hi'' @ [CHR 0x22, CHR 0x22] @ '', ok''
       @ [CHR 0x22]"
  by code_simp

text \<open>
  C6.  For every cell value, \<open>esc\<close> returns the value's string form unchanged when it
  contains no comma, no double quote and no newline; otherwise it returns the string
  between two double quotes, with every double quote inside written twice.  Either way
  the quoting rules read the string form back.  The value \<open>He said "hi", ok\<close> is
  written \<open>"He said ""hi"", ok"\<close>.
\<close>

theorem esc_quoting:
  "(CHR '','' \<notin> set (py_str v) \<and> CHR 0x22 \<notin> set (py_str v) \<and> NL \<notin> set (py_str v)
      \<longrightarrow> esc v = py_str v)
   \<and> (CHR '','' \<in> set (py_str v) \<or> CHR 0x22 \<in> set (py_str v) \<or> NL \<in> set (py_str v)
      \<longrightarrow> esc v = [CHR 0x22]
                    @ concat (map (\<lambda>c. if c = CHR 0x22 then [CHR 0x22, CHR 0x22] else [c]) (py_str v))
                    @ [CHR 0x22])
   \<and> unquote (esc v) = py_str v
   \<and> esc (VStr (''He said '' @ [CHR 0x22] @ ''hi'' @ [CHR 0x22] @ '', ok'')) =
       [CHR 0x22] @ ''He said '' @ [CHR 0x22, CHR 0x22] @ ''hi'' @ [CHR 0x22, CHR 0x22] @ '', ok''
         @ [CHR 0x22]"
  using esc_plain[of v] esc_quoted[of v] unquote_esc[of v] esc_example
  by (simp add: replace_char_def)

text \<open>
  A cell with a comma is quoted, a cell with a quote has it doubled, an integer cell is
  left alone, and each reads back.
\<close>

theorem esc_quoting_witness:
  "esc (VStr ''a,b'') = [CHR 0x22] @ ''a,b'' @ [CHR 0x22]
   \<and> esc (VStr [CHR ''x'', CHR 0x22]) = [CHR 0x22, CHR ''x'', CHR 0x22, CHR 0x22, CHR 0x22]
   \<and> esc (VInt 42) = ''42''
   \<and> unquote (esc (VStr ''a,b'')) = ''a,b''"
proof -
  have a: "CHR '','' \<in> set (py_str (VStr ''a,b''))" by simp
  have b: "CHR 0x22 \<in> set (py_str (VStr [CHR ''x'', CHR 0x22]))" by simp
  have c: "py_str (VInt 42) = ''42''" by code_simp
  have d: "CHR '','' \<notin> set ''42''" "CHR 0x22 \<notin> set ''42''" "NL \<notin> set ''42''"
    by (simp_all add: NL_def)
  from esc_quoting[of "VStr ''a,b''"] a
  have 1: "esc (VStr ''a,b'') = [CHR 0x22] @ ''a,b'' @ [CHR 0x22]" by simp
  have 4: "unquote (esc (VStr ''a,b'')) = ''a,b''"
    using esc_quoting[THEN conjunct2, THEN conjunct2, THEN conjunct1, of "VStr ''a,b''"] by simp
  from esc_quoting[of "VStr [CHR ''x'', CHR 0x22]"] b
  have 2: "esc (VStr [CHR ''x'', CHR 0x22]) = [CHR 0x22, CHR ''x'', CHR 0x22, CHR 0x22, CHR 0x22]"
    by simp
  from esc_quoting[of "VInt 42"] c d
  have 3: "esc (VInt 42) = ''42''" by simp
  from 1 2 3 4 show ?thesis by blast
qed

section \<open>The table\<close>

subsection \<open>Column widths\<close>

lemma init_widths_at:
  "init_widths hs cw h = (if h \<in> set hs then length h else cw h)"
  by (induction hs arbitrary: cw) auto

lemma widen_by_row_at:
  "widen_by_row row hs cw h =
     (if h \<in> set hs then max (cw h) (length (cell_text row h)) else cw h)"
  by (induction hs arbitrary: cw) (auto simp: Let_def cell_text_def)

lemma Max_insert_max:
  fixes a b :: nat
  assumes "finite S"
  shows "Max (insert (max a b) S) = Max (insert a (insert b S))"
proof (cases "S = {}")
  case True
  then show ?thesis by (simp add: max.commute)
next
  case False
  then show ?thesis using assms by (simp add: max.assoc)
qed

lemma widen_by_rows_at:
  "widen_by_rows rows hs cw h =
     (if h \<in> set hs then Max (insert (cw h) ((\<lambda>r. length (cell_text r h)) ` set rows)) else cw h)"
proof (induction rows arbitrary: cw)
  case Nil
  then show ?case by simp
next
  case (Cons row rows)
  show ?case
    by (simp add: Cons widen_by_row_at Max_insert_max del: Max_insert)
qed

lemma length_upper: "length (upper h) = length h"
  by (simp add: upper_def)

lemma compute_widths_at:
  assumes "h \<in> set hs"
  shows "compute_widths rows hs h =
           Max (insert (length (upper h)) ((\<lambda>r. length (cell_text r h)) ` set rows))"
  using assms by (simp add: compute_widths_def widen_by_rows_at init_widths_at length_upper)

lemma compute_widths_bounds:
  assumes "h \<in> set hs"
  shows "length (upper h) \<le> compute_widths rows hs h"
    and "r \<in> set rows \<Longrightarrow> length (cell_text r h) \<le> compute_widths rows hs h"
  unfolding compute_widths_at[OF assms] by (auto intro: Max_ge)

subsection \<open>Lines\<close>

lemma table_lines_loop_map:
  "table_lines_loop cw hs rows lines = lines @ map (table_line cw hs) rows"
  by (induction rows arbitrary: lines) auto

lemma length_ljust: "length (ljust s w) = max (length s) w"
  by (auto simp: ljust_def)

lemma take_ljust: "take (length s) (ljust s w) = s"
  by (simp add: ljust_def)

lemma take_ljust_upper: "take (length h) (ljust (upper h) w) = upper h"
  using take_ljust[of "upper h" w] by (simp add: length_upper)

lemma drop_ljust: "drop (length s) (ljust s w) = replicate (w - length s) CHR '' ''"
  by (simp add: ljust_def)

lemma format_table_lines:
  "format_table rows inc =
     join [NL]
       (join ''  '' (map (\<lambda>h. ljust (upper h) (compute_widths rows (headers_of inc) h)) (headers_of inc))
        # join ''  '' (map (\<lambda>h. replicate (compute_widths rows (headers_of inc) h) CHR ''-'') (headers_of inc))
        # map (\<lambda>r. join ''  '' (map (\<lambda>h. ljust (cell_text r h) (compute_widths rows (headers_of inc) h))
                                   (headers_of inc))) rows)"
proof -
  have "table_line cw hs = (\<lambda>r. join ''  '' (map (\<lambda>h. ljust (cell_text r h) (cw h)) hs))" for cw hs
    by (simp add: fun_eq_iff table_line_def cell_text_def)
  then show ?thesis
    by (simp only: format_table_def Let_def table_lines_loop_map append.simps)
qed

lemma table_aztec:
  "main ns \<lparr>stack = ''aztec'', format = ''table'', include_score = False, sort_by = None,
         descending = False\<rparr> =
     Printed
      (unlines
        [''KEY    NAME                   FAMILY               PRIVACY_LEVEL  SOUNDNESS_FOCUS  PERFORMANCE_COST  DEV_COMPLEXITY  ECOSYSTEM_MATURITY'',
         ''-----  ---------------------  -------------------  -------------  ---------------  ----------------  --------------  ------------------'',
         ''aztec  Aztec-style zk Rollup  zk-SNARK privacy L2  9              8                7                 8               7                 ''])"
  by code_simp

text \<open>
  C8.  For every list of rows and either header list, the width of each column is the
  greatest of the length of its uppercased header and the lengths of its stringified
  cells.  The table is the header line, the separator line and one line per row, in row
  order, joined by newlines; each line joins its columns by two spaces.  A header cell
  is the uppercased name and a data cell the stringified value, each followed by spaces
  up to the column's width, so that every cell, and every run of dashes, has exactly the
  width of its column.  For \<open>--stack aztec --format table\<close> the program prints three
  lines, header, separator and one data row, with the eight columns of \<open>FIELDS_ORDER\<close>
  and no score column.
\<close>

theorem format_table_layout:
  "(\<forall>h \<in> set (headers_of inc).
      compute_widths rows (headers_of inc) h =
        Max (insert (length (upper h)) ((\<lambda>r. length (cell_text r h)) ` set rows)))
   \<and> format_table rows inc =
       join [NL]
         (join ''  '' (map (\<lambda>h. ljust (upper h) (compute_widths rows (headers_of inc) h)) (headers_of inc))
          # join ''  '' (map (\<lambda>h. replicate (compute_widths rows (headers_of inc) h) CHR ''-'') (headers_of inc))
          # map (\<lambda>r. join ''  '' (map (\<lambda>h. ljust (cell_text r h) (compute_widths rows (headers_of inc) h))
                                     (headers_of inc))) rows)
   \<and> (\<forall>h \<in> set (headers_of inc).
        length (ljust (upper h) (compute_widths rows (headers_of inc) h))
          = compute_widths rows (headers_of inc) h
        \<and> take (length h) (ljust (upper h) (compute_widths rows (headers_of inc) h)) = upper h
        \<and> (\<forall>r \<in> set rows.
              length (ljust (cell_text r h) (compute_widths rows (headers_of inc) h))
                = compute_widths rows (headers_of inc) h
              \<and> take (length (cell_text r h))
                       (ljust (cell_text r h) (compute_widths rows (headers_of inc) h))
                  = cell_text r h))
   \<and> main ns \<lparr>stack = ''aztec'', format = ''table'', include_score = False, sort_by = None,
            descending = False\<rparr> =
       Printed
        (unlines
          [''KEY    NAME                   FAMILY               PRIVACY_LEVEL  SOUNDNESS_FOCUS  PERFORMANCE_COST  DEV_COMPLEXITY  ECOSYSTEM_MATURITY'',
           ''-----  ---------------------  -------------------  -------------  ---------------  ----------------  --------------  ------------------'',
           ''aztec  Aztec-style zk Rollup  zk-SNARK privacy L2  9              8                7                 8               7                 ''])
   \<and> headers_of False = FIELDS_ORDER
   \<and> length FIELDS_ORDER = 8
   \<and> ''composite_score'' \<notin> set FIELDS_ORDER"
proof -
  have w: "\<forall>h \<in> set (headers_of inc).
      compute_widths rows (headers_of inc) h =
        Max (insert (length (upper h)) ((\<lambda>r. length (cell_text r h)) ` set rows))"
    by (simp add: compute_widths_at)
  have c: "\<forall>h \<in> set (headers_of inc).
        length (ljust (upper h) (compute_widths rows (headers_of inc) h))
          = compute_widths rows (headers_of inc) h
        \<and> take (length h) (ljust (upper h) (compute_widths rows (headers_of inc) h)) = upper h
        \<and> (\<forall>r \<in> set rows.
              length (ljust (cell_text r h) (compute_widths rows (headers_of inc) h))
                = compute_widths rows (headers_of inc) h
              \<and> take (length (cell_text r h))
                       (ljust (cell_text r h) (compute_widths rows (headers_of inc) h))
                  = cell_text r h)"
    using compute_widths_bounds[where hs = "headers_of inc" and rows = rows]
    by (auto simp: length_ljust max_def take_ljust take_ljust_upper)
  have f: "headers_of False = FIELDS_ORDER" "length FIELDS_ORDER = 8"
    "''composite_score'' \<notin> set FIELDS_ORDER"
    by (simp_all add: headers_of_def FIELDS_ORDER_def)
  show ?thesis using w format_table_lines[of rows inc] c table_aztec f by blast
qed

text \<open>
  The \<open>name\<close> column of the one-row table for aztec: the header has four letters, the
  cell twenty-one, and the column is twenty-one wide.
\<close>

theorem format_table_layout_witness:
  "''name'' \<in> set (headers_of False)
   \<and> length (upper ''name'') = 4
   \<and> cell_text (to_dict aztec) ''name'' = ''Aztec-style zk Rollup''
   \<and> compute_widths [to_dict aztec] (headers_of False) ''name'' = 21
   \<and> length (ljust (upper ''name'') (compute_widths [to_dict aztec] (headers_of False) ''name'')) = 21"
proof -
  have h: "''name'' \<in> set (headers_of False)" by (simp add: headers_of_def FIELDS_ORDER_def)
  have u: "length (upper ''name'') = 4" by (simp add: upper_def)
  have t: "cell_text (to_dict aztec) ''name'' = ''Aztec-style zk Rollup''"
    by (simp add: cell_text_def to_dict_def dict_get_def aztec_def)
  have r: "to_dict aztec \<in> set [to_dict aztec]" by simp
  from format_table_layout[where inc = False and rows = "[to_dict aztec]"] h
  have "compute_widths [to_dict aztec] (headers_of False) ''name'' =
      Max (insert (length (upper ''name''))
            ((\<lambda>r. length (cell_text r ''name'')) ` set [to_dict aztec]))"
    and "length (ljust (upper ''name'') (compute_widths [to_dict aztec] (headers_of False) ''name''))
      = compute_widths [to_dict aztec] (headers_of False) ''name''"
    by blast+
  then show ?thesis using h u t by simp
qed

section \<open>Columns\<close>

lemma csv_lines_loop_map:
  "csv_lines_loop hs rows out_lines = out_lines @ map (csv_line hs) rows"
  by (induction rows arbitrary: out_lines) auto

lemma format_csv_lines:
  "format_csv rows inc =
     join [NL] (join '','' (headers_of inc)
                # map (\<lambda>r. join '','' (map (\<lambda>h. esc (dict_get r h (VStr []))) (headers_of inc))) rows)"
proof -
  have "csv_line hs = (\<lambda>r. join '','' (map (\<lambda>h. esc (dict_get r h (VStr []))) hs))" for hs
    by (simp add: fun_eq_iff csv_line_def)
  then show ?thesis
    by (simp only: format_csv_def Let_def csv_lines_loop_map append.simps)
qed

lemma map_of_project: "h \<in> set hs \<Longrightarrow> map_of (project hs r) h = map_of r h"
  by (induction r) (auto simp: project_def)

lemma dict_get_project: "h \<in> set hs \<Longrightarrow> dict_get (project hs r) h d = dict_get r h d"
  by (simp add: dict_get_def map_of_project)

lemma cell_text_project: "h \<in> set hs \<Longrightarrow> cell_text (project hs r) h = cell_text r h"
  by (simp add: cell_text_def dict_get_project)

lemma compute_widths_project:
  assumes "h \<in> set hs"
  shows "compute_widths (map (project hs) rows) hs h = compute_widths rows hs h"
proof -
  have "(\<lambda>r. length (cell_text r h)) ` set (map (project hs) rows)
      = (\<lambda>r. length (cell_text r h)) ` set rows"
    using assms by (simp add: image_image cell_text_project)
  then show ?thesis using assms by (simp only: compute_widths_at)
qed

lemma format_csv_project: "format_csv (map (project (headers_of inc)) rows) inc = format_csv rows inc"
  by (simp add: format_csv_lines dict_get_project o_def cong: map_cong)

lemma format_table_project:
  "format_table (map (project (headers_of inc)) rows) inc = format_table rows inc"
  by (simp add: format_table_lines compute_widths_project cell_text_project o_def cong: map_cong)

lemma headers_of_no_description: "''description'' \<notin> set (headers_of inc)"
  by (simp add: headers_of_def FIELDS_ORDER_def)

lemma project_to_dict_description:
  "project (headers_of inc) (to_dict (s\<lparr>description := d\<rparr>)) = project (headers_of inc) (to_dict s)"
  by (simp add: project_def to_dict_def headers_of_def FIELDS_ORDER_def)

lemma project_build_rows_description:
  "map (project (headers_of inc)) (build_rows (map (\<lambda>s. s\<lparr>description := d\<rparr>) selected) b)
     = map (project (headers_of inc)) (build_rows selected b)"
proof -
  have "project hs (r @ e) = project hs r @ project hs e" for hs r e
    by (simp add: project_def)
  then show ?thesis
    by (simp add: build_rows_map project_to_dict_description score_stack_def o_def)
qed

lemma csv_ignores_description:
  "format_csv (build_rows (map (\<lambda>s. s\<lparr>description := d\<rparr>) selected) b) inc
     = format_csv (build_rows selected b) inc"
  using format_csv_project[of inc "build_rows (map (\<lambda>s. s\<lparr>description := d\<rparr>) selected) b"]
    format_csv_project[of inc "build_rows selected b"]
  by (simp only: project_build_rows_description)

lemma table_ignores_description:
  "format_table (build_rows (map (\<lambda>s. s\<lparr>description := d\<rparr>) selected) b) inc
     = format_table (build_rows selected b) inc"
  using format_table_project[of inc "build_rows (map (\<lambda>s. s\<lparr>description := d\<rparr>) selected) b"]
    format_table_project[of inc "build_rows selected b"]
  by (simp only: project_build_rows_description)

text \<open>
  C9.  The header list of both renderers is \<open>FIELDS_ORDER\<close>, followed by
  \<open>composite_score\<close> when the flag is set; \<open>description\<close> is not in it.  The CSV text
  is the comma-joined header list and, for each row, the comma-joined cells of exactly
  these headers.  The table is the line of the uppercased headers, the line of dashes
  and, for each row, the line of its cells, each line holding one padded entry for
  exactly these headers, in their order, joined by two spaces.  Neither the table nor
  the CSV text changes when every other field is removed from the rows; in particular,
  for rows made by \<open>build_rows\<close>, neither changes when the stacks' descriptions are
  replaced by anything else.
\<close>

theorem renderers_columns:
  "headers_of inc = FIELDS_ORDER @ (if inc then [''composite_score''] else [])
   \<and> ''description'' \<notin> set (headers_of inc)
   \<and> join '','' (headers_of False) =
       ''key,name,family,privacy_level,soundness_focus,performance_cost,dev_complexity,ecosystem_maturity''
   \<and> join '','' (headers_of True) =
       ''key,name,family,privacy_level,soundness_focus,performance_cost,dev_complexity,ecosystem_maturity,composite_score''
   \<and> format_csv rows inc =
       join [NL] (join '','' (headers_of inc)
                  # map (\<lambda>r. join '','' (map (\<lambda>h. esc (dict_get r h (VStr []))) (headers_of inc))) rows)
   \<and> format_table rows inc =
       join [NL]
         (join ''  '' (map (\<lambda>h. ljust (upper h) (compute_widths rows (headers_of inc) h)) (headers_of inc))
          # join ''  '' (map (\<lambda>h. replicate (compute_widths rows (headers_of inc) h) CHR ''-'') (headers_of inc))
          # map (\<lambda>r. join ''  '' (map (\<lambda>h. ljust (cell_text r h) (compute_widths rows (headers_of inc) h))
                                     (headers_of inc))) rows)
   \<and> format_csv (map (project (headers_of inc)) rows) inc = format_csv rows inc
   \<and> format_table (map (project (headers_of inc)) rows) inc = format_table rows inc
   \<and> format_csv (build_rows (map (\<lambda>s. s\<lparr>description := d\<rparr>) selected) b) inc
       = format_csv (build_rows selected b) inc
   \<and> format_table (build_rows (map (\<lambda>s. s\<lparr>description := d\<rparr>) selected) b) inc
       = format_table (build_rows selected b) inc"
proof -
  have h: "headers_of inc = FIELDS_ORDER @ (if inc then [''composite_score''] else [])"
    by (simp add: headers_of_def)
  have j: "join '','' (headers_of False) =
       ''key,name,family,privacy_level,soundness_focus,performance_cost,dev_complexity,ecosystem_maturity''"
    "join '','' (headers_of True) =
       ''key,name,family,privacy_level,soundness_focus,performance_cost,dev_complexity,ecosystem_maturity,composite_score''"
    by (simp_all add: headers_of_def FIELDS_ORDER_def)
  show ?thesis
    using h headers_of_no_description[of inc] j format_csv_lines[of rows inc]
      format_table_lines[of rows inc] format_csv_project[of inc rows] format_table_project[of inc rows]
      csv_ignores_description[of d selected b inc] table_ignores_description[of d selected b inc]
    by blast
qed

section \<open>The catalog and the transient score\<close>

lemma stacks_keys: "map (\<lambda>(k, s). key s) STACKS = map fst STACKS"
  by (simp add: STACKS_def aztec_fields zama_fields soundness_fields)

lemma stacks_distinct: "distinct (map fst STACKS)"
  by (simp add: STACKS_def)

lemma stacks_item_key:
  assumes "s \<in> snd ` set STACKS"
  shows "stacks_item (VStr (key s)) = Inr s"
  using assms
  by (auto simp: stacks_item_def dict_item_def STACKS_def aztec_fields zama_fields soundness_fields)

lemma to_dict_key: "dict_item (to_dict s) ''key'' = Inr (VStr (key s))"
  by (simp add: dict_item_def to_dict_def)

lemma attach_scores_catalog:
  assumes "set stacks \<subseteq> snd ` set STACKS"
  shows "attach_scores (map to_dict stacks) =
           Inr (map (\<lambda>s. to_dict s @ [(''composite_score'', VFloat (score_stack s))]) stacks)"
  using assms
  by (induction stacks) (simp_all add: to_dict_key stacks_item_key dict_set_to_dict)

lemma select_stacks_catalog:
  assumes "select_stacks k = Inr stacks"
  shows "set stacks \<subseteq> snd ` set STACKS"
proof (cases "k = ''all''")
  case True
  then show ?thesis using assms by (auto simp: select_stacks_def)
next
  case False
  then obtain s where s: "map_of STACKS k = Some s" "stacks = [s]"
    using assms by (auto simp: select_stacks_def dict_item_def split: option.splits)
  then have "(k, s) \<in> set STACKS" by (simp add: map_of_SomeD)
  then show ?thesis using s by force
qed

lemma transient_score:
  assumes "select_stacks k = Inr stacks"
  shows "attach_scores (build_rows stacks False) = Inr (build_rows stacks True)"
  using attach_scores_catalog[OF select_stacks_catalog[OF assms]]
  by (simp add: build_rows_map)

text \<open>
  C10.  Every record of the catalog is stored under its own \<open>key\<close> field, the keys are
  distinct, and looking a record up again by its \<open>key\<close> finds that record.
  Consequently, for the stacks that \<open>select_stacks\<close> returns, the loop of \<open>main\<close>
  that adds \<open>score_stack(STACKS[row["key"]])\<close> to rows built without a score raises
  nothing and produces exactly the rows that \<open>build_rows\<close> builds with the score.
\<close>

theorem catalog_keys_transient_score:
  "map (\<lambda>(k, s). key s) STACKS = map fst STACKS
   \<and> distinct (map fst STACKS)
   \<and> map (\<lambda>(k, s). stacks_item (VStr (key s))) STACKS = map (\<lambda>(k, s). Inr s) STACKS
   \<and> (select_stacks k = Inr stacks
        \<longrightarrow> attach_scores (build_rows stacks False) = Inr (build_rows stacks True))"
proof -
  have "map (\<lambda>(k, s). stacks_item (VStr (key s))) STACKS = map (\<lambda>(k, s). Inr s) STACKS"
    by (simp add: STACKS_def stacks_item_def dict_item_def aztec_fields zama_fields soundness_fields)
  then show ?thesis
    by (simp add: stacks_keys stacks_distinct transient_score)
qed

text \<open>The whole catalog: the scores added afterwards are the scores built in.\<close>

theorem catalog_keys_transient_score_witness:
  "select_stacks ''all'' = Inr [aztec, zama, soundness]
   \<and> attach_scores (build_rows [aztec, zama, soundness] False)
       = Inr (build_rows [aztec, zama, soundness] True)"
proof -
  have s: "select_stacks ''all'' = Inr [aztec, zama, soundness]"
    by (simp add: select_stacks_def STACKS_def)
  from catalog_keys_transient_score[of "''all''" "[aztec, zama, soundness]"] s
  show ?thesis by simp
qed

section \<open>The score column\<close>

subsection \<open>Sorting built rows never fails\<close>

lemma is_str_sort_key:
  "is_str (sort_key_of f (if b then to_dict s @ [(''composite_score'', VFloat v)] else to_dict s))
     = (f \<in> set [''key'', ''name'', ''family'', ''description''])"
  by (auto simp: sort_key_of_def dict_get_def to_dict_def)

lemma comparable_build_rows: "comparable (map (sort_key_of f) (build_rows stacks b))"
proof (cases "f \<in> set [''key'', ''name'', ''family'', ''description'']")
  case True
  then have "list_all is_str (map (sort_key_of f) (build_rows stacks b))"
    unfolding build_rows_map list_all_iff using is_str_sort_key[of f b] by auto
  then show ?thesis by (simp add: comparable_def)
next
  case False
  then have "list_all (\<lambda>k. \<not> is_str k) (map (sort_key_of f) (build_rows stacks b))"
    unfolding build_rows_map list_all_iff using is_str_sort_key[of f b] by auto
  then show ?thesis by (simp add: comparable_def)
qed

text \<open>No key of a built row is NaN: the cells are strings and integers, and the score is
  what \<^verbatim>\<open>round\<close> returns on a finite float.\<close>

lemma score_stack_not_nan: "score_stack s \<noteq> NaN"
  by (simp add: score_stack_def py_round_def Let_def)

lemma is_nan_iff: "is_nan v = (v = VFloat NaN)"
  by (cases v rule: is_nan.cases) simp_all

lemma not_nan_sort_key:
  "\<not> is_nan (sort_key_of f (if b then to_dict s @ [(''composite_score'', VFloat (score_stack s))]
                           else to_dict s))"
  using score_stack_not_nan[of s]
  by (auto simp: is_nan_iff sort_key_of_def dict_get_def to_dict_def)

lemma no_nan_build_rows: "\<not> list_ex is_nan (map (sort_key_of f) (build_rows stacks b))"
  unfolding build_rows_map list_ex_iff using not_nan_sort_key[of f b] by auto

lemma sort_build_rows_ok:
  "\<exists>rows. sort_rows ns (build_rows stacks b) sb desc = Inr rows
          \<and> mset rows = mset (build_rows stacks b)"
proof (cases sb)
  case None
  then show ?thesis by (simp add: sort_rows_def)
next
  case (Some f)
  show ?thesis
  proof (cases "f = []")
    case True
    then show ?thesis using Some by (simp add: sort_rows_def)
  next
    case False
    have k: "(\<lambda>r. dict_get r f (VInt 0)) = sort_key_of f"
      by (simp add: sort_key_of_def fun_eq_iff)
    have "sort_rows ns (build_rows stacks b) sb desc =
        py_sorted (ns (build_rows stacks b) f desc) (build_rows stacks b) (sort_key_of f) desc"
      using Some False by (simp add: sort_rows_def k)
    then show ?thesis
      using py_sorted_ok[of "build_rows stacks b" "sort_key_of f" "ns (build_rows stacks b) f desc" desc]
        comparable_build_rows[of f stacks b] no_nan_build_rows[of f stacks b]
      by auto
  qed
qed

subsection \<open>The rows of \<open>main\<close>\<close>

lemma parse_args_select:
  assumes "parse_args a = Some a"
  shows "\<exists>stacks. select_stacks (stack a) = Inr stacks"
proof -
  have "stack a \<in> set (list_keys @ [''all''])"
    using assms by (simp add: parse_args_def split: if_splits)
  then show ?thesis
    by (auto simp: select_stacks_def list_keys_def STACKS_def dict_item_def)
qed

lemma main_rows_sorted:
  assumes "select_stacks (stack a) = Inr stacks"
  shows "main_rows ns a = sort_rows ns (build_rows stacks (show_score a)) (sort_by a) (descending a)"
  using assms transient_score[OF assms]
  by (auto simp: main_rows_def show_score_def)

lemma build_rows_has_score:
  assumes "r \<in> set (build_rows stacks b)"
  shows "(''composite_score'' \<in> fst ` set r) = b"
proof -
  have "r \<in> (\<lambda>s. if b then to_dict s @ [(''composite_score'', VFloat (score_stack s))]
                    else to_dict s) ` set stacks"
    using assms by (simp only: build_rows_map set_map)
  then obtain s where "r = (if b then to_dict s @ [(''composite_score'', VFloat (score_stack s))]
                       else to_dict s)"
    by (rule imageE)
  then have "map fst r = (if b then map fst (to_dict s) @ [''composite_score'']
                          else map fst (to_dict s))"
    by simp
  then have "(''composite_score'' \<in> set (map fst r)) = b"
    by (simp add: to_dict_keys)
  then show ?thesis by simp
qed

lemma render_show:
  "format a \<noteq> ''json'' \<Longrightarrow>
     render a rows = (if format a = ''csv'' then format_csv rows (show_score a)
                      else format_table rows (show_score a))"
  by (simp add: render_def show_score_def)

lemma main_flag_irrelevant:
  assumes "sort_by a = Some ''composite_score''"
  shows "main ns (a\<lparr>include_score := True\<rparr>) = main ns (a\<lparr>include_score := False\<rparr>)"
proof (cases "parse_args a")
  case None
  then have "parse_args (a\<lparr>include_score := b\<rparr>) = None" for b
    by (simp add: parse_args_def split: if_splits)
  then show ?thesis by (simp add: main_def)
next
  case (Some a')
  then have p: "parse_args (a\<lparr>include_score := b\<rparr>) = Some (a\<lparr>include_score := b\<rparr>)" for b
    by (simp add: parse_args_def split: if_splits)
  have "parse_args (a\<lparr>include_score := True\<rparr>) = Some (a\<lparr>include_score := True\<rparr>)" by (rule p)
  then obtain stacks where s: "select_stacks (stack a) = Inr stacks"
    using parse_args_select[of "a\<lparr>include_score := True\<rparr>"] by auto
  have "show_score (a\<lparr>include_score := b\<rparr>)" for b
    using assms by (simp add: show_score_def)
  then have "main_rows ns (a\<lparr>include_score := True\<rparr>) = main_rows ns (a\<lparr>include_score := False\<rparr>)"
    using main_rows_sorted[of "a\<lparr>include_score := True\<rparr>" stacks]
      main_rows_sorted[of "a\<lparr>include_score := False\<rparr>" stacks] s
    by simp
  moreover have "render (a\<lparr>include_score := True\<rparr>) rows = render (a\<lparr>include_score := False\<rparr>) rows"
    for rows using assms by (simp add: render_def)
  ultimately show ?thesis by (simp add: main_def p split: sum.splits)
qed

text \<open>
  C7.  Let the options be accepted by \<open>parse_args\<close> and the format be the table or
  CSV.  Then \<open>main\<close> raises nothing; the rows it renders are the rows built with the
  score exactly when \<open>include_score\<close> is set or \<open>sort_by\<close> is \<open>composite_score\<close>,
  sorted; every one of them has a \<open>composite_score\<close> entry under exactly that
  condition; and the text printed is the renderer's output for these rows with the
  score column switched on under exactly that condition.  The header list contains
  \<open>composite_score\<close> exactly when the column is switched on.  When \<open>sort_by\<close> is
  \<open>composite_score\<close>, the output without \<open>--include-score\<close> is the output with it;
  when it is not, the condition is the flag itself.
\<close>

theorem main_score_column:
  "(parse_args a = Some a \<and> format a \<noteq> ''json'' \<longrightarrow>
      (\<exists>stacks rows.
          select_stacks (stack a) = Inr stacks
        \<and> sort_rows ns (build_rows stacks (show_score a)) (sort_by a) (descending a) = Inr rows
        \<and> main_rows ns a = Inr rows
        \<and> mset rows = mset (build_rows stacks (show_score a))
        \<and> (\<forall>r \<in> set rows. (''composite_score'' \<in> fst ` set r) = show_score a)
        \<and> main ns a = Printed ((if format a = ''csv'' then format_csv rows (show_score a)
                              else format_table rows (show_score a)) @ [NL])))
   \<and> (''composite_score'' \<in> set (headers_of (show_score a))) = show_score a
   \<and> show_score a = (include_score a \<or> sort_by a = Some ''composite_score'')
   \<and> (sort_by a = Some ''composite_score''
        \<longrightarrow> main ns (a\<lparr>include_score := True\<rparr>) = main ns (a\<lparr>include_score := False\<rparr>))"
proof -
  have 1: "\<exists>stacks rows.
          select_stacks (stack a) = Inr stacks
        \<and> sort_rows ns (build_rows stacks (show_score a)) (sort_by a) (descending a) = Inr rows
        \<and> main_rows ns a = Inr rows
        \<and> mset rows = mset (build_rows stacks (show_score a))
        \<and> (\<forall>r \<in> set rows. (''composite_score'' \<in> fst ` set r) = show_score a)
        \<and> main ns a = Printed ((if format a = ''csv'' then format_csv rows (show_score a)
                              else format_table rows (show_score a)) @ [NL])"
    if p: "parse_args a = Some a" and j: "format a \<noteq> ''json''"
  proof -
    obtain stacks where s: "select_stacks (stack a) = Inr stacks"
      using parse_args_select[OF p] by blast
    obtain rows where r: "sort_rows ns (build_rows stacks (show_score a)) (sort_by a) (descending a) = Inr rows"
      and m: "mset rows = mset (build_rows stacks (show_score a))"
      using sort_build_rows_ok by blast
    have mr: "main_rows ns a = Inr rows" using main_rows_sorted[OF s] r by simp
    have "set rows = set (build_rows stacks (show_score a))" using m by (rule mset_eq_setD)
    then have c: "\<forall>r \<in> set rows. (''composite_score'' \<in> fst ` set r) = show_score a"
      using build_rows_has_score by blast
    have "main ns a = Printed ((if format a = ''csv'' then format_csv rows (show_score a)
                              else format_table rows (show_score a)) @ [NL])"
      using p mr render_show[OF j] by (simp add: main_def)
    then show ?thesis using s r mr m c by blast
  qed
  have 2: "(''composite_score'' \<in> set (headers_of (show_score a))) = show_score a"
    by (simp add: headers_of_def FIELDS_ORDER_def)
  show ?thesis using 1 2 main_flag_irrelevant[of a] by (simp add: show_score_def)
qed

lemma csv_sorted_by_score:
  "main ns \<lparr>stack = ''all'', format = ''csv'', include_score = False,
         sort_by = Some ''composite_score'', descending = True\<rparr> =
     Printed (unlines
       [''key,name,family,privacy_level,soundness_focus,performance_cost,dev_complexity,ecosystem_maturity,composite_score'',
        ''aztec,Aztec-style zk Rollup,zk-SNARK privacy L2,9,8,7,8,7,6.15'',
        ''zama,Zama-style FHE Compute,FHE + Web3,8,9,9,9,5,5.85'',
        ''soundness,Soundness-first Lab,Formal verification,6,10,6,7,8,5.75''])"
  by code_simp

text \<open>
  \<open>--stack all --sort-by composite_score --descending --format csv\<close>, without
  \<open>--include-score\<close>: the options are accepted, the score column is shown, and the
  text printed has the \<open>composite_score\<close> header and the three rows by descending score.
\<close>

theorem main_score_column_witness:
  "\<forall>ns.
   parse_args \<lparr>stack = ''all'', format = ''csv'', include_score = False,
               sort_by = Some ''composite_score'', descending = True\<rparr>
     = Some \<lparr>stack = ''all'', format = ''csv'', include_score = False,
             sort_by = Some ''composite_score'', descending = True\<rparr>
   \<and> show_score \<lparr>stack = ''all'', format = ''csv'', include_score = False,
                  sort_by = Some ''composite_score'', descending = True\<rparr>
   \<and> (\<exists>rows. main_rows ns \<lparr>stack = ''all'', format = ''csv'', include_score = False,
                           sort_by = Some ''composite_score'', descending = True\<rparr> = Inr rows
          \<and> length rows = 3
          \<and> format_csv rows True @ [NL] =
              unlines
                [''key,name,family,privacy_level,soundness_focus,performance_cost,dev_complexity,ecosystem_maturity,composite_score'',
                 ''aztec,Aztec-style zk Rollup,zk-SNARK privacy L2,9,8,7,8,7,6.15'',
                 ''zama,Zama-style FHE Compute,FHE + Web3,8,9,9,9,5,5.85'',
                 ''soundness,Soundness-first Lab,Formal verification,6,10,6,7,8,5.75''])
   \<and> main ns \<lparr>stack = ''all'', format = ''csv'', include_score = True,
            sort_by = Some ''composite_score'', descending = True\<rparr>
       = main ns \<lparr>stack = ''all'', format = ''csv'', include_score = False,
              sort_by = Some ''composite_score'', descending = True\<rparr>"
proof
  fix ns :: nan_order
  let ?a = "\<lparr>stack = ''all'', format = ''csv'', include_score = False,
             sort_by = Some ''composite_score'', descending = True\<rparr>"
  have p: "parse_args ?a = Some ?a"
    by (simp add: parse_args_def list_keys_def STACKS_def FIELDS_ORDER_def)
  have f: "format ?a \<noteq> ''json''" "format ?a = ''csv''" by simp_all
  have sh: "show_score ?a" by (simp add: show_score_def)
  have sb: "sort_by ?a = Some ''composite_score''" by simp
  have st: "select_stacks (stack ?a) = Inr [aztec, zama, soundness]"
    by (simp add: select_stacks_def STACKS_def)
  from main_score_column[where a = ?a and ns = ns] p f(1)
  obtain stacks rows where r: "select_stacks (stack ?a) = Inr stacks" "main_rows ns ?a = Inr rows"
    "mset rows = mset (build_rows stacks (show_score ?a))"
    "main ns ?a = Printed ((if format ?a = ''csv'' then format_csv rows (show_score ?a)
                         else format_table rows (show_score ?a)) @ [NL])"
    by blast
  have "stacks = [aztec, zama, soundness]" using r(1) st by simp
  then have "size (mset rows) = 3" unfolding r(3) by (simp add: build_rows_map)
  then have l: "length rows = 3" by simp
  have "main ns ?a = Printed (format_csv rows True @ [NL])"
    using r(4) sh by (simp only: f(2) if_True[of "format_csv rows True"] simp_thms)
  then have e: "format_csv rows True @ [NL] =
      unlines
        [''key,name,family,privacy_level,soundness_focus,performance_cost,dev_complexity,ecosystem_maturity,composite_score'',
         ''aztec,Aztec-style zk Rollup,zk-SNARK privacy L2,9,8,7,8,7,6.15'',
         ''zama,Zama-style FHE Compute,FHE + Web3,8,9,9,9,5,5.85'',
         ''soundness,Soundness-first Lab,Formal verification,6,10,6,7,8,5.75'']"
    using csv_sorted_by_score by simp
  have m: "main ns (?a\<lparr>include_score := True\<rparr>) = main ns (?a\<lparr>include_score := False\<rparr>)"
    using main_score_column[where a = ?a and ns = ns] sb by blast
  show "parse_args \<lparr>stack = ''all'', format = ''csv'', include_score = False,
               sort_by = Some ''composite_score'', descending = True\<rparr>
     = Some \<lparr>stack = ''all'', format = ''csv'', include_score = False,
             sort_by = Some ''composite_score'', descending = True\<rparr>
   \<and> show_score \<lparr>stack = ''all'', format = ''csv'', include_score = False,
                  sort_by = Some ''composite_score'', descending = True\<rparr>
   \<and> (\<exists>rows. main_rows ns \<lparr>stack = ''all'', format = ''csv'', include_score = False,
                           sort_by = Some ''composite_score'', descending = True\<rparr> = Inr rows
          \<and> length rows = 3
          \<and> format_csv rows True @ [NL] =
              unlines
                [''key,name,family,privacy_level,soundness_focus,performance_cost,dev_complexity,ecosystem_maturity,composite_score'',
                 ''aztec,Aztec-style zk Rollup,zk-SNARK privacy L2,9,8,7,8,7,6.15'',
                 ''zama,Zama-style FHE Compute,FHE + Web3,8,9,9,9,5,5.85'',
                 ''soundness,Soundness-first Lab,Formal verification,6,10,6,7,8,5.75''])
   \<and> main ns \<lparr>stack = ''all'', format = ''csv'', include_score = True,
            sort_by = Some ''composite_score'', descending = True\<rparr>
       = main ns \<lparr>stack = ''all'', format = ''csv'', include_score = False,
              sort_by = Some ''composite_score'', descending = True\<rparr>"
    using p sh r(2) l e m by auto
qed

section \<open>JSON\<close>








end
